theory Spec2Isabelle
  imports Main
begin

section \<open>Python string primitives\<close>

text \<open>
  A Python \<open>str\<close> is a sequence of code points. It is modelled as a \<open>string\<close> whose
  characters are the code points U+0000 to U+00FF, so \<open>length\<close> counts code points the
  way \<open>len\<close> does. \<open>isspace\<close>, \<open>lower\<close> and the class \<open>\s\<close> are the
  restrictions of Python's to that range.
\<close>

definition isspace :: "char \<Rightarrow> bool" where
  "isspace c =
     (let n = (of_char c :: nat)
      in (9 \<le> n \<and> n \<le> 13) \<or> (28 \<le> n \<and> n \<le> 32) \<or> n = 133 \<or> n = 160)"

definition lstrip :: "string \<Rightarrow> string" where
  "lstrip s = dropWhile isspace s"

definition rstrip :: "string \<Rightarrow> string" where
  "rstrip s = rev (dropWhile isspace (rev s))"

definition strip :: "string \<Rightarrow> string" where
  "strip s = rstrip (lstrip s)"

fun join :: "string \<Rightarrow> string list \<Rightarrow> string" where
  "join sep [] = []"
| "join sep [x] = x"
| "join sep (x # y # ys) = x @ sep @ join sep (y # ys)"

definition lower_char :: "char \<Rightarrow> char" where
  "lower_char c =
     (let n = (of_char c :: nat)
      in if (65 \<le> n \<and> n \<le> 90) \<or> (192 \<le> n \<and> n \<le> 222 \<and> n \<noteq> 215)
         then char_of (n + 32) else c)"

definition lower :: "string \<Rightarrow> string" where
  "lower s = map lower_char s"

section \<open>Section Parser: \<open>DocumentationParser\<close>\<close>

text \<open>
  \<open>html.parser.HTMLParser.feed\<close> turns the markup into calls of \<open>handle_starttag\<close>,
  \<open>handle_endtag\<close> and \<open>handle_data\<close>. The class under study only overrides these
  three callbacks, so its input is the sequence of those calls. An attribute written
  without a value carries Python's \<open>None\<close>.
\<close>

datatype event =
    StartTag string "(string \<times> string option) list"
  | EndTag string
  | Data string

record Section =
  s_id :: "string option"
  s_level :: int
  s_title :: string
  s_content :: string

record parser =
  sections :: "Section list"
  current_section :: "Section option"
  current_content :: "string list"
  in_section :: bool
  section_level :: int

definition init_parser :: parser where
  "init_parser =
     \<lparr>sections = [], current_section = None, current_content = [],
      in_section = False, section_level = 0\<rparr>"

definition is_heading :: "string \<Rightarrow> bool" where
  "is_heading tag = (tag \<in> set [''h1'', ''h2'', ''h3'', ''h4''])"

text \<open>\<open>int(tag[1])\<close> on a tag that passed \<open>is_heading\<close>.\<close>

definition heading_rank :: "string \<Rightarrow> int" where
  "heading_rank tag = int (of_char (tag ! 1)) - 48"

text \<open>\<open>dict(attrs).get('id', '')\<close>: the last occurrence of a repeated attribute wins.\<close>

definition attrs_get_id :: "(string \<times> string option) list \<Rightarrow> string option" where
  "attrs_get_id attrs =
     (case map_of (rev attrs) ''id'' of None \<Rightarrow> Some [] | Some v \<Rightarrow> v)"

text \<open>The finalize step shared by \<open>handle_starttag\<close> and \<open>get_sections\<close>.\<close>

definition save_section :: "parser \<Rightarrow> Section list" where
  "save_section p =
     (case current_section p of
        None \<Rightarrow> sections p
      | Some cs \<Rightarrow>
          sections p @ [cs\<lparr>s_content := strip (join '' '' (current_content p))\<rparr>])"

definition handle_starttag ::
  "parser \<Rightarrow> string \<Rightarrow> (string \<times> string option) list \<Rightarrow> parser" where
  "handle_starttag p tag attrs =
     (if is_heading tag then
        p\<lparr>sections := save_section p,
          section_level := heading_rank tag,
          current_section :=
            Some \<lparr>s_id = attrs_get_id attrs, s_level = heading_rank tag,
                  s_title = [], s_content = []\<rparr>,
          current_content := [],
          in_section := True\<rparr>
      else p)"

definition handle_endtag :: "parser \<Rightarrow> string \<Rightarrow> parser" where
  "handle_endtag p tag = (if is_heading tag then p\<lparr>in_section := False\<rparr> else p)"

definition handle_data :: "parser \<Rightarrow> string \<Rightarrow> parser" where
  "handle_data p data =
     (if in_section p \<and> current_section p \<noteq> None then
        p\<lparr>current_section :=
            map_option (\<lambda>cs. cs\<lparr>s_title := strip data\<rparr>) (current_section p)\<rparr>
      else if current_section p \<noteq> None then
        (let text = strip data
         in if text \<noteq> [] then p\<lparr>current_content := current_content p @ [text]\<rparr>
            else p)
      else p)"

fun handle :: "parser \<Rightarrow> event \<Rightarrow> parser" where
  "handle p (StartTag tag attrs) = handle_starttag p tag attrs"
| "handle p (EndTag tag) = handle_endtag p tag"
| "handle p (Data d) = handle_data p d"

definition feed :: "parser \<Rightarrow> event list \<Rightarrow> parser" where
  "feed p evs = foldl handle p evs"

definition get_sections :: "parser \<Rightarrow> Section list" where
  "get_sections p = save_section p"

definition parse_sections :: "event list \<Rightarrow> Section list" where
  "parse_sections evs = get_sections (feed init_parser evs)"

text \<open>Vocabulary for the statements about the parser.\<close>

fun heading_start :: "event \<Rightarrow> bool" where
  "heading_start (StartTag tag attrs) = is_heading tag"
| "heading_start _ = False"

fun heading_end :: "event \<Rightarrow> bool" where
  "heading_end (EndTag tag) = is_heading tag"
| "heading_end _ = False"

fun event_rank :: "event \<Rightarrow> int" where
  "event_rank (StartTag tag attrs) = heading_rank tag"
| "event_rank _ = 0"

fun data_of :: "event \<Rightarrow> string list" where
  "data_of (Data d) = [d]"
| "data_of _ = []"

definition fragments :: "event list \<Rightarrow> string list" where
  "fragments evs = concat (map data_of evs)"

definition heading_starts :: "event list \<Rightarrow> event list" where
  "heading_starts evs = filter heading_start evs"


section \<open>Regular expressions used by the source\<close>

text \<open>
  The three patterns of \<open>_parse_library_keywords\<close> are sequences of literal characters
  and greedy repetitions of a character class. \<open>re_match\<close> is the backtracking match of
  such a sequence at the start of a string, preferring the longest repetition first as
  \<open>re\<close> does; it returns the text matched by each item and the unread rest.
\<close>

datatype char_class = Whitespace | NotChar char

fun in_class :: "char_class \<Rightarrow> char \<Rightarrow> bool" where
  "in_class Whitespace c = isspace c"
| "in_class (NotChar d) c = (c \<noteq> d)"

datatype re_item = Lit char | Star char_class | Plus char_class

definition push_piece :: "char \<Rightarrow> string list \<times> string \<Rightarrow> string list \<times> string" where
  "push_piece x r = (case fst r of [] \<Rightarrow> ([[x]], snd r) | p # ps \<Rightarrow> ((x # p) # ps, snd r))"

definition new_piece :: "string \<Rightarrow> string list \<times> string \<Rightarrow> string list \<times> string" where
  "new_piece p r = (p # fst r, snd r)"

fun re_match :: "re_item list \<Rightarrow> string \<Rightarrow> (string list \<times> string) option" where
  "re_match [] s = Some ([], s)"
| "re_match (Lit c # r) [] = None"
| "re_match (Lit c # r) (x # xs) =
     (if x = c then map_option (new_piece [x]) (re_match r xs) else None)"
| "re_match (Star k # r) [] = map_option (new_piece []) (re_match r [])"
| "re_match (Star k # r) (x # xs) =
     (if in_class k x then
        (case re_match (Star k # r) xs of
           Some m \<Rightarrow> Some (push_piece x m)
         | None \<Rightarrow> map_option (new_piece []) (re_match r (x # xs)))
      else map_option (new_piece []) (re_match r (x # xs)))"
| "re_match (Plus k # r) [] = None"
| "re_match (Plus k # r) (x # xs) =
     (if in_class k x then map_option (push_piece x) (re_match (Star k # r) xs) else None)"

text \<open>\<open>re.search\<close>: the leftmost match; \<open>(start(), end())\<close> of the match object.\<close>

fun re_search_from :: "re_item list \<Rightarrow> nat \<Rightarrow> string \<Rightarrow> (nat \<times> nat) option" where
  "re_search_from pat i [] =
     (case re_match pat [] of
        Some m \<Rightarrow> Some (i, i + length (concat (fst m)))
      | None \<Rightarrow> None)"
| "re_search_from pat i (x # xs) =
     (case re_match pat (x # xs) of
        Some m \<Rightarrow> Some (i, i + length (concat (fst m)))
      | None \<Rightarrow> re_search_from pat (Suc i) xs)"

definition re_search :: "re_item list \<Rightarrow> string \<Rightarrow> (nat \<times> nat) option" where
  "re_search pat s = re_search_from pat 0 s"

text \<open>
  \<open>re.sub\<close> for a pattern that matches no empty string (true of both patterns it is
  used with): every leftmost non-overlapping match is replaced by \<open>repl\<close> of its pieces.
\<close>

fun re_sub :: "re_item list \<Rightarrow> (string list \<Rightarrow> string) \<Rightarrow> string \<Rightarrow> string" where
  "re_sub pat repl [] = []"
| "re_sub pat repl (x # xs) =
     (case re_match pat (x # xs) of
        Some m \<Rightarrow>
          if length (snd m) < length (x # xs) then repl (fst m) @ re_sub pat repl (snd m)
          else x # re_sub pat repl xs
      | None \<Rightarrow> x # re_sub pat repl xs)"


section \<open>Embedded-Object Extractor\<close>

abbreviation dquote :: char where
  "dquote \<equiv> CHR 0x22"

abbreviation backslash :: char where
  "backslash \<equiv> CHR 0x5C"

abbreviation backtick :: char where
  "backtick \<equiv> CHR 0x60"

text \<open>The marker \<open>libdoc\s*=\s*\{\<close>.\<close>

definition libdoc_marker :: "re_item list" where
  "libdoc_marker =
     map Lit ''libdoc'' @ [Star Whitespace, Lit CHR ''='', Star Whitespace, Lit CHR ''{'']"

text \<open>
  The loop \<open>for i in range(start_pos, len(html_content))\<close> with its three locals. It
  returns \<open>end_pos\<close> at the \<open>break\<close> and \<open>None\<close> when the \<open>for\<close> runs into its
  \<open>else\<close>.
\<close>

function scan :: "string \<Rightarrow> nat \<Rightarrow> int \<Rightarrow> bool \<Rightarrow> bool \<Rightarrow> nat option" where
  "scan html i depth in_string escape =
     (if i < length html then
        (if escape then scan html (Suc i) depth in_string False
         else if html ! i = backslash then scan html (Suc i) depth in_string True
         else if html ! i = dquote \<and> \<not> escape then
           scan html (Suc i) depth (\<not> in_string) escape
         else if \<not> in_string then
           (if html ! i = CHR ''{'' then scan html (Suc i) (depth + 1) in_string escape
            else if html ! i = CHR ''}'' then
              (if depth - 1 = 0 then Some (i + 1)
               else scan html (Suc i) (depth - 1) in_string escape)
            else scan html (Suc i) depth in_string escape)
         else scan html (Suc i) depth in_string escape)
      else None)"
  by pat_completeness auto
termination
  by (relation "measure (\<lambda>(html, i, depth, in_string, escape). length html - i)") auto

text \<open>\<open>html_content[start_pos:end_pos]\<close> for \<open>start_pos \<le> end_pos\<close>.\<close>

definition slice :: "string \<Rightarrow> nat \<Rightarrow> nat \<Rightarrow> string" where
  "slice s a b = take (b - a) (drop a s)"

datatype parse_error =
    NotDownloaded
  | NotFound
  | Unbalanced
  | MalformedPayload
  | ParsingError

text \<open>
  Lines 207 to 249: the marker search and the brace scan. The errors are the two
  \<open>return\<close> statements with the messages "Could not find libdoc in HTML" and
  "Could not find end of libdoc JSON".
\<close>

definition extract_libdoc_json :: "string \<Rightarrow> parse_error + string" where
  "extract_libdoc_json html_content =
     (case re_search libdoc_marker html_content of
        None \<Rightarrow> Inl NotFound
      | Some start_match \<Rightarrow>
          (let start_pos = snd start_match - 1
           in case scan html_content start_pos 0 False False of
                None \<Rightarrow> Inl Unbalanced
              | Some end_pos \<Rightarrow> Inr (slice html_content start_pos end_pos)))"

section \<open>Keyword Normalizer\<close>

text \<open>
  The value \<open>json.loads\<close> returns. An object keeps its members in order, each key once.
  Numbers are the integers; \<open>source\<close> and \<open>lineno\<close> are passed through as they are.
\<close>

datatype json =
    JNull
  | JBool bool
  | JNum int
  | JStr string
  | JArr "json list"
  | JObj "(string \<times> json) list"

text \<open>Python's truth value, as \<open>if not name\<close> and \<open>if arg_repr\<close> test it.\<close>

fun truthy :: "json \<Rightarrow> bool" where
  "truthy JNull = False"
| "truthy (JBool b) = b"
| "truthy (JNum n) = (n \<noteq> 0)"
| "truthy (JStr s) = (s \<noteq> [])"
| "truthy (JArr xs) = (xs \<noteq> [])"
| "truthy (JObj kvs) = (kvs \<noteq> [])"

text \<open>
  \<open>d.get(key, default)\<close>; only a dict has \<open>get\<close>, so on any other value the call
  raises (\<open>None\<close> here) and the \<open>except Exception\<close> of the caller takes over.
\<close>

fun dict_get :: "json \<Rightarrow> string \<Rightarrow> json \<Rightarrow> json option" where
  "dict_get (JObj kvs) key dflt =
     (case map_of kvs key of None \<Rightarrow> Some dflt | Some v \<Rightarrow> Some v)"
| "dict_get _ key dflt = None"

text \<open>
  What a \<open>for\<close> loop iterates over: the items of a list, the keys of a dict, the
  characters of a string; any other value is not iterable and raises.
\<close>

fun iterate :: "json \<Rightarrow> json list option" where
  "iterate (JArr xs) = Some xs"
| "iterate (JObj kvs) = Some (map (\<lambda>kv. JStr (fst kv)) kvs)"
| "iterate (JStr s) = Some (map (\<lambda>c. JStr [c]) s)"
| "iterate _ = None"

record KeywordRecord =
  kw_name :: string
  kw_id :: string
  kw_args :: string
  kw_doc :: string
  kw_library :: string
  kw_source :: json
  kw_lineno :: json

text \<open>\<open>s.replace(old, new)\<close> for a one-character \<open>old\<close>.\<close>

definition replace :: "char \<Rightarrow> string \<Rightarrow> string \<Rightarrow> string" where
  "replace old new s = concat (map (\<lambda>c. if c = old then new else [c]) s)"

text \<open>\<open>re.sub(r'<[^>]+>', '', doc)\<close>\<close>

definition remove_html_tags :: "string \<Rightarrow> string" where
  "remove_html_tags doc =
     re_sub [Lit CHR ''<'', Plus (NotChar CHR ''>''), Lit CHR ''>''] (\<lambda>groups. []) doc"

text \<open>\<open>re.sub(r'``([^`]+)``', r'\1', doc)\<close>: group 1 is the third item of the pattern.\<close>

definition rst_code_to_plain :: "string \<Rightarrow> string" where
  "rst_code_to_plain doc =
     re_sub [Lit backtick, Lit backtick, Plus (NotChar backtick), Lit backtick, Lit backtick]
       (\<lambda>groups. groups ! 2) doc"

text \<open>
  The inner loop over \<open>kw_data.get("args", [])\<close>. \<open>None\<close> stands for a raised
  exception: an argument that is no dict. The parts are kept as values, since
  \<open>", ".join\<close> is what rejects a part that is no string.
\<close>

fun args_parts :: "json list \<Rightarrow> json list option" where
  "args_parts [] = Some []"
| "args_parts (arg # rest) =
     (case dict_get arg ''repr'' (JStr []) of
        None \<Rightarrow> None
      | Some arg_repr \<Rightarrow>
          (case args_parts rest of
             None \<Rightarrow> None
           | Some parts \<Rightarrow> Some (if truthy arg_repr then arg_repr # parts else parts)))"

fun str_parts :: "json list \<Rightarrow> string list option" where
  "str_parts [] = Some []"
| "str_parts (JStr s # rest) = map_option ((#) s) (str_parts rest)"
| "str_parts (_ # rest) = None"

text \<open>\<open>keywords[name] = record\<close> on an insertion-ordered dict.\<close>

fun dict_set :: "'k \<Rightarrow> 'v \<Rightarrow> ('k \<times> 'v) list \<Rightarrow> ('k \<times> 'v) list" where
  "dict_set k v [] = [(k, v)]"
| "dict_set k v (kv # kvs) = (if fst kv = k then (k, v) # kvs else kv # dict_set k v kvs)"

datatype 'a step = Raise | Skip | Emit 'a

text \<open>
  One pass of the body of \<open>for kw_data in libdoc_data.get("keywords", [])\<close>, lines 256
  to 281: \<open>Skip\<close> is the \<open>continue\<close>, \<open>Raise\<close> any exception of the body.
\<close>

definition keyword_record :: "string \<Rightarrow> json \<Rightarrow> KeywordRecord step" where
  "keyword_record library_name kw_data =
     (case dict_get kw_data ''name'' (JStr []) of
        None \<Rightarrow> Raise
      | Some name \<Rightarrow>
          if \<not> truthy name then Skip
          else
            (case Option.bind (dict_get kw_data ''args'' (JArr [])) iterate of
               None \<Rightarrow> Raise
             | Some args \<Rightarrow>
                 (case Option.bind (args_parts args) str_parts of
                    None \<Rightarrow> Raise
                  | Some parts \<Rightarrow>
                      (case (dict_get kw_data ''shortdoc'' (JStr []), name,
                             dict_get kw_data ''source'' (JStr []),
                             dict_get kw_data ''lineno'' (JStr [])) of
                         (Some (JStr doc), JStr n, Some source, Some lineno) \<Rightarrow>
                           Emit \<lparr>kw_name = n,
                                 kw_id = replace CHR '' '' ''%20'' n,
                                 kw_args = join '', '' parts,
                                 kw_doc = rst_code_to_plain (remove_html_tags doc),
                                 kw_library = library_name,
                                 kw_source = source,
                                 kw_lineno = lineno\<rparr>
                       | _ \<Rightarrow> Raise))))"

fun build_keywords ::
  "string \<Rightarrow> (string \<times> KeywordRecord) list \<Rightarrow> json list
     \<Rightarrow> (string \<times> KeywordRecord) list option" where
  "build_keywords library_name keywords [] = Some keywords"
| "build_keywords library_name keywords (kw_data # rest) =
     (case keyword_record library_name kw_data of
        Raise \<Rightarrow> None
      | Skip \<Rightarrow> build_keywords library_name keywords rest
      | Emit r \<Rightarrow> build_keywords library_name (dict_set (kw_name r) r keywords) rest)"

text \<open>Lines 254 to 281 on the value \<open>libdoc_data\<close>.\<close>

definition normalize_keywords ::
  "string \<Rightarrow> json \<Rightarrow> (string \<times> KeywordRecord) list option" where
  "normalize_keywords library_name libdoc_data =
     (case Option.bind (dict_get libdoc_data ''keywords'' (JArr [])) iterate of
        None \<Rightarrow> None
      | Some entries \<Rightarrow> build_keywords library_name [] entries)"

text \<open>
  \<open>_parse_library_keywords\<close> on the content of the library file, if the file exists.
  \<open>json_loads\<close> is \<open>json.loads\<close>, with \<open>None\<close> for \<open>json.JSONDecodeError\<close>. The
  result \<open>Inr keywords\<close> is the dict returned with \<open>success: True\<close>, whose
  \<open>total_keywords\<close> is \<open>len(keywords)\<close>.
\<close>

definition parse_library_keywords ::
  "(string \<Rightarrow> json option) \<Rightarrow> string \<Rightarrow> string option
     \<Rightarrow> parse_error + (string \<times> KeywordRecord) list" where
  "parse_library_keywords json_loads library_name library_file =
     (case library_file of
        None \<Rightarrow> Inl NotDownloaded
      | Some html_content \<Rightarrow>
          (case extract_libdoc_json html_content of
             Inl e \<Rightarrow> Inl e
           | Inr libdoc_json \<Rightarrow>
               (case json_loads libdoc_json of
                  None \<Rightarrow> Inl MalformedPayload
                | Some libdoc_data \<Rightarrow>
                    (case normalize_keywords library_name libdoc_data of
                       None \<Rightarrow> Inl ParsingError
                     | Some keywords \<Rightarrow> Inr keywords))))"


section \<open>Documentation Index: \<open>fetch_rf_documentation\<close>\<close>

definition RF_VERSION :: string where
  "RF_VERSION = ''7.4.1''"

definition RF_DOCS_URL :: string where
  "RF_DOCS_URL =
     ''https://robotframework.org/robotframework/'' @ RF_VERSION @ ''/RobotFrameworkUserGuide.html''"

definition RF_BASE_LIB_URL :: string where
  "RF_BASE_LIB_URL = ''https://robotframework.org/robotframework/'' @ RF_VERSION @ ''/libraries''"

definition STANDARD_LIBRARIES :: "string list" where
  "STANDARD_LIBRARIES =
     [''BuiltIn'', ''Collections'', ''DateTime'', ''OperatingSystem'', ''Process'',
      ''Screenshot'', ''String'', ''Telnet'', ''XML'']"

text \<open>
  The documents of the cache directory and of the network: \<open>DOCS_FILE\<close> with
  \<open>RF_DOCS_URL\<close>, and for each library its file with its URL. The two index files hold
  the values that are dumped to them; the time stamp \<open>parsed_at\<close> is left out.
\<close>

datatype target = UserGuide | Library string

record DocumentIndex =
  di_version :: string
  di_total_sections :: nat
  di_sections :: "Section list"

record KeywordsIndex =
  ki_version :: string
  ki_total_libraries :: nat
  ki_total_keywords :: nat
  ki_libraries :: "(string \<times> (string \<times> KeywordRecord) list) list"

record cache =
  cache_files :: "target \<Rightarrow> string option"
  INDEX_FILE :: "DocumentIndex option"
  KEYWORDS_INDEX :: "KeywordsIndex option"

text \<open>
  \<open>_download_file\<close>: \<open>net\<close> is the response of \<open>urlopen\<close>, \<open>None\<close> for each of the
  three \<open>except\<close> branches, which write nothing. The result is the \<open>success\<close> flag and
  the files after the call.
\<close>

definition download_file ::
  "(target \<Rightarrow> string option) \<Rightarrow> target \<Rightarrow> (target \<Rightarrow> string option)
     \<Rightarrow> bool \<times> (target \<Rightarrow> string option)" where
  "download_file net t files =
     (case net t of
        Some content \<Rightarrow> (True, files(t := Some content))
      | None \<Rightarrow> (False, files))"

datatype indexing_result = NoDocumentation | SectionsParsed nat

text \<open>
  \<open>_parse_documentation\<close>; \<open>tokenize\<close> is the tokenizer of \<open>HTMLParser.feed\<close>.
\<close>

definition parse_documentation ::
  "(string \<Rightarrow> event list) \<Rightarrow> cache \<Rightarrow> indexing_result \<times> cache" where
  "parse_documentation tokenize c =
     (case cache_files c UserGuide of
        None \<Rightarrow> (NoDocumentation, c)
      | Some html_content \<Rightarrow>
          (let sections = parse_sections (tokenize html_content);
               index = \<lparr>di_version = RF_VERSION, di_total_sections = length sections,
                        di_sections = sections\<rparr>
           in (SectionsParsed (length sections), c\<lparr>INDEX_FILE := Some index\<rparr>)))"

record library_result =
  lr_success :: bool
  lr_total_keywords :: nat

text \<open>
  What the loop over the libraries reads and writes: the cached files,
  \<open>results["files_downloaded"]\<close>, \<open>results["libraries"]\<close> and the two locals.
\<close>

record refresh =
  files :: "target \<Rightarrow> string option"
  files_downloaded :: "string list"
  libraries :: "(string \<times> library_result) list"
  all_keywords :: "(string \<times> (string \<times> KeywordRecord) list) list"
  total_keywords :: nat

text \<open>The body of \<open>for library_name in STANDARD_LIBRARIES\<close>, lines 346 to 365.\<close>

definition fetch_library ::
  "(string \<Rightarrow> json option) \<Rightarrow> (target \<Rightarrow> string option) \<Rightarrow> bool \<Rightarrow> refresh \<Rightarrow> string
     \<Rightarrow> refresh" where
  "fetch_library json_loads net force_refresh st library_name =
     (let library_file = Library library_name;
          st1 =
            (if force_refresh \<or> files st library_file = None then
               (let result = download_file net library_file (files st)
                in if fst result then
                     st\<lparr>files := snd result,
                        files_downloaded := files_downloaded st @ [library_name @ ''.html'']\<rparr>
                   else st\<lparr>files := snd result\<rparr>)
             else st)
      in if files st1 library_file \<noteq> None then
           (case parse_library_keywords json_loads library_name (files st1 library_file) of
              Inl e \<Rightarrow>
                st1\<lparr>libraries :=
                      dict_set library_name \<lparr>lr_success = False, lr_total_keywords = 0\<rparr>
                        (libraries st1)\<rparr>
            | Inr keywords \<Rightarrow>
                st1\<lparr>libraries :=
                      dict_set library_name
                        \<lparr>lr_success = True, lr_total_keywords = length keywords\<rparr>
                        (libraries st1),
                    all_keywords := dict_set library_name keywords (all_keywords st1),
                    total_keywords := total_keywords st1 + length keywords\<rparr>)
         else st1)"

definition fetch_libraries ::
  "(string \<Rightarrow> json option) \<Rightarrow> (target \<Rightarrow> string option) \<Rightarrow> bool \<Rightarrow> refresh \<Rightarrow> string list
     \<Rightarrow> refresh" where
  "fetch_libraries json_loads net force_refresh st names =
     foldl (fetch_library json_loads net force_refresh) st names"

record user_guide_result =
  ug_success :: bool
  ug_cached :: bool

record keywords_index_result =
  kir_total_libraries :: nat
  kir_total_keywords :: nat

record fetch_results =
  r_files_downloaded :: "string list"
  r_libraries :: "(string \<times> library_result) list"
  r_user_guide :: user_guide_result
  r_indexing :: "indexing_result option"
  r_keywords_index :: "keywords_index_result option"
  r_success :: bool

text \<open>
  \<open>fetch_rf_documentation\<close> over a list of library names, returning \<open>results\<close> and the
  cache directory it leaves behind.
\<close>

definition fetch_documentation ::
  "(string \<Rightarrow> json option) \<Rightarrow> (string \<Rightarrow> event list) \<Rightarrow> (target \<Rightarrow> string option)
     \<Rightarrow> string list \<Rightarrow> bool \<Rightarrow> cache \<Rightarrow> fetch_results \<times> cache" where
  "fetch_documentation json_loads tokenize net names force_refresh c =
     (let (user_guide, downloaded, files1) =
            (if force_refresh \<or> cache_files c UserGuide = None then
               (let result = download_file net UserGuide (cache_files c)
                in (\<lparr>ug_success = fst result, ug_cached = False\<rparr>,
                    if fst result then [''RobotFrameworkUserGuide.html''] else [],
                    snd result))
             else (\<lparr>ug_success = True, ug_cached = True\<rparr>, [], cache_files c));
          c1 = c\<lparr>cache_files := files1\<rparr>;
          (indexing, c2) =
            (if cache_files c1 UserGuide \<noteq> None then
               (let parse_result = parse_documentation tokenize c1
                in (Some (fst parse_result), snd parse_result))
             else (None, c1));
          st = fetch_libraries json_loads net force_refresh
                 \<lparr>files = cache_files c2, files_downloaded = downloaded, libraries = [],
                  all_keywords = [], total_keywords = 0\<rparr> names;
          c3 = c2\<lparr>cache_files := files st\<rparr>;
          (keywords_index, c4) =
            (if all_keywords st \<noteq> [] then
               (Some \<lparr>kir_total_libraries = length (all_keywords st),
                       kir_total_keywords = total_keywords st\<rparr>,
                c3\<lparr>KEYWORDS_INDEX :=
                     Some \<lparr>ki_version = RF_VERSION,
                           ki_total_libraries = length (all_keywords st),
                           ki_total_keywords = total_keywords st,
                           ki_libraries = all_keywords st\<rparr>\<rparr>)
             else (None, c3))
      in (\<lparr>r_files_downloaded = files_downloaded st,
           r_libraries = libraries st,
           r_user_guide = user_guide,
           r_indexing = indexing,
           r_keywords_index = keywords_index,
           r_success = ug_success user_guide\<rparr>, c4))"

definition fetch_rf_documentation ::
  "(string \<Rightarrow> json option) \<Rightarrow> (string \<Rightarrow> event list) \<Rightarrow> (target \<Rightarrow> string option)
     \<Rightarrow> bool \<Rightarrow> cache \<Rightarrow> fetch_results \<times> cache" where
  "fetch_rf_documentation json_loads tokenize net force_refresh c =
     fetch_documentation json_loads tokenize net STANDARD_LIBRARIES force_refresh c"

section \<open>Search Engine: \<open>search_rf_documentation\<close>\<close>

fun startswith :: "string \<Rightarrow> string \<Rightarrow> bool" where
  "startswith s [] = True"
| "startswith [] (c # cs) = False"
| "startswith (x # xs) (c # cs) = (x = c \<and> startswith xs cs)"

text \<open>
  \<open>s.count(sub)\<close>: the number of non-overlapping occurrences, found from the left;
  for the empty \<open>sub\<close> it is \<open>len(s) + 1\<close>.
\<close>

fun count_nonempty :: "string \<Rightarrow> string \<Rightarrow> nat" where
  "count_nonempty [] sub = 0"
| "count_nonempty (x # xs) sub =
     (if startswith (x # xs) sub then Suc (count_nonempty (drop (length sub - 1) xs) sub)
      else count_nonempty xs sub)"

definition str_count :: "string \<Rightarrow> string \<Rightarrow> nat" where
  "str_count s sub = (if sub = [] then length s + 1 else count_nonempty s sub)"

record SearchResult =
  sr_title :: string
  sr_id :: "string option"
  sr_level :: int
  sr_relevance :: nat
  sr_content_preview :: string
  sr_url :: string

text \<open>How an f-string prints the \<open>id\<close>: \<open>None\<close> as the word.\<close>

definition format_id :: "string option \<Rightarrow> string" where
  "format_id i = (case i of None \<Rightarrow> ''None'' | Some v \<Rightarrow> v)"

definition title_matches :: "string \<Rightarrow> Section \<Rightarrow> nat" where
  "title_matches query_lower section = str_count (lower (s_title section)) query_lower"

definition content_matches :: "string \<Rightarrow> Section \<Rightarrow> nat" where
  "content_matches query_lower section = str_count (lower (s_content section)) query_lower"

definition make_result :: "string \<Rightarrow> Section \<Rightarrow> SearchResult" where
  "make_result query_lower section =
     \<lparr>sr_title = s_title section,
      sr_id = s_id section,
      sr_level = s_level section,
      sr_relevance = title_matches query_lower section * 10 + content_matches query_lower section,
      sr_content_preview = take 300 (s_content section) @ ''...'',
      sr_url = RF_DOCS_URL @ ''#'' @ format_id (s_id section)\<rparr>"

text \<open>The loop \<open>for section in sections\<close>, lines 415 to 433.\<close>

fun collect_results :: "string \<Rightarrow> SearchResult list \<Rightarrow> Section list \<Rightarrow> SearchResult list" where
  "collect_results query_lower results [] = results"
| "collect_results query_lower results (section # rest) =
     (if title_matches query_lower section > 0 \<or> content_matches query_lower section > 0 then
        collect_results query_lower (results @ [make_result query_lower section]) rest
      else collect_results query_lower results rest)"

text \<open>
  \<open>results.sort(key=lambda x: x["relevance"], reverse=True)\<close>: \<open>list.sort\<close> is stable,
  and with \<open>reverse=True\<close> equal keys still keep their order.
\<close>

definition sort_by_relevance :: "SearchResult list \<Rightarrow> SearchResult list" where
  "sort_by_relevance results = sort_key (\<lambda>x. - int (sr_relevance x)) results"

text \<open>\<open>xs[:n]\<close>, where a negative \<open>n\<close> counts from the end.\<close>

definition slice_to :: "'a list \<Rightarrow> int \<Rightarrow> 'a list" where
  "slice_to xs n = (if n < 0 then take (nat (int (length xs) + n)) xs else take (nat n) xs)"

definition ranked_results :: "Section list \<Rightarrow> string \<Rightarrow> SearchResult list" where
  "ranked_results secs query = sort_by_relevance (collect_results (lower query) [] secs)"

record search_output =
  out_query :: string
  out_total_matches :: nat
  out_results :: "SearchResult list"

datatype search_error = IndexNotFound

definition search_rf_documentation ::
  "cache \<Rightarrow> string \<Rightarrow> int \<Rightarrow> search_error + search_output" where
  "search_rf_documentation c query max_results =
     (case INDEX_FILE c of
        None \<Rightarrow> Inl IndexNotFound
      | Some index_data \<Rightarrow>
          (let results = ranked_results (di_sections index_data) query
           in Inr \<lparr>out_query = query,
                   out_total_matches = length results,
                   out_results = slice_to results max_results\<rparr>))"

section \<open>Keyword Lookup: \<open>get_keyword_documentation\<close>\<close>

datatype lookup_result =
    LibraryNotFound string "string list"
  | Found string string string string string
  | NotAvailable string

text \<open>\<open>k.lower().replace("_", " ").replace("-", " ")\<close>\<close>

definition normalize_name :: "string \<Rightarrow> string" where
  "normalize_name k = replace CHR ''-'' '' '' (replace CHR ''_'' '' '' (lower k))"

text \<open>
  The two nested loops of lines 628 to 640; \<open>Found\<close> carries \<open>keyword\<close>, \<open>library\<close>,
  \<open>arguments\<close>, \<open>documentation\<close> and \<open>url\<close> of the returned dict.
\<close>

fun search_keywords ::
  "string \<Rightarrow> string \<Rightarrow> (string \<times> KeywordRecord) list \<Rightarrow> lookup_result option" where
  "search_keywords keyword_name_lower lib_name [] = None"
| "search_keywords keyword_name_lower lib_name (kv # rest) =
     (if normalize_name (fst kv) = keyword_name_lower then
        Some (Found (fst kv) lib_name (kw_args (snd kv)) (kw_doc (snd kv))
                (RF_BASE_LIB_URL @ ''/'' @ lib_name @ ''.html'' @ ''#'' @ kw_id (snd kv)))
      else search_keywords keyword_name_lower lib_name rest)"

fun search_libraries ::
  "string \<Rightarrow> (string \<times> (string \<times> KeywordRecord) list) list \<Rightarrow> lookup_result option" where
  "search_libraries keyword_name_lower [] = None"
| "search_libraries keyword_name_lower (lib # rest) =
     (case search_keywords keyword_name_lower (fst lib) (snd lib) of
        Some r \<Rightarrow> Some r
      | None \<Rightarrow> search_libraries keyword_name_lower rest)"

text \<open>
  Lines 610 to 648 on the loaded index. \<open>if library_name:\<close> is false for \<open>None\<close> and
  for the empty string.
\<close>

definition first_match ::
  "string \<Rightarrow> (string \<times> (string \<times> KeywordRecord) list) list \<Rightarrow> lookup_result" where
  "first_match keyword_name libraries_to_search =
     (case search_libraries (normalize_name keyword_name) libraries_to_search of
        Some r \<Rightarrow> r
      | None \<Rightarrow> NotAvailable keyword_name)"

definition get_keyword_documentation ::
  "KeywordsIndex \<Rightarrow> string \<Rightarrow> string option \<Rightarrow> lookup_result" where
  "get_keyword_documentation index_data keyword_name library_name =
     (let all_libraries = ki_libraries index_data
      in case library_name of
           None \<Rightarrow> first_match keyword_name all_libraries
         | Some l \<Rightarrow>
             if l = [] then first_match keyword_name all_libraries
             else
               (case map_of all_libraries l of
                  None \<Rightarrow> LibraryNotFound l (map fst all_libraries)
                | Some keywords \<Rightarrow> first_match keyword_name [(l, keywords)]))"


section \<open>The specification's own wording\<close>

text \<open>
  The title rule as the specification words it: the first non-empty text fragment of
  the heading, trimmed.
\<close>

definition first_nonempty_fragment :: "string list \<Rightarrow> string" where
  "first_nonempty_fragment frags =
     (case filter (\<lambda>t. t \<noteq> []) (map strip frags) of [] \<Rightarrow> [] | t # ts \<Rightarrow> t)"

text \<open>
  The scan as the specification words it: a machine with the state \<open>(depth, in_string,
  escape)\<close> that reads every character, and the depth it has reached after the first
  \<open>n\<close> characters.
\<close>

fun scan_step :: "int \<times> bool \<times> bool \<Rightarrow> char \<Rightarrow> int \<times> bool \<times> bool" where
  "scan_step (depth, in_string, escape) c =
     (if escape then (depth, in_string, False)
      else if c = backslash then (depth, in_string, True)
      else if c = dquote then (depth, \<not> in_string, escape)
      else if \<not> in_string \<and> c = CHR ''{'' then (depth + 1, in_string, escape)
      else if \<not> in_string \<and> c = CHR ''}'' then (depth - 1, in_string, escape)
      else (depth, in_string, escape))"

definition depth_after :: "string \<Rightarrow> nat \<Rightarrow> int" where
  "depth_after s n = fst (foldl scan_step (0, False, False) (take n s))"

text \<open>
  The index of the character at which the machine, started in a given state, first
  reaches depth 0.
\<close>

fun first_return :: "int \<times> bool \<times> bool \<Rightarrow> string \<Rightarrow> nat option" where
  "first_return st [] = None"
| "first_return st (c # cs) =
     (if fst (scan_step st c) = 0 then Some 0
      else map_option Suc (first_return (scan_step st c) cs))"

text \<open>A string occurs in another one as a run of consecutive characters.\<close>

definition occurs_in :: "string \<Rightarrow> string \<Rightarrow> bool" where
  "occurs_in sub s = (\<exists>i\<in>{0..length s}. startswith (drop i s) sub)"


text \<open>The filter condition of the search loop, \<open>title_matches > 0 or content_matches > 0\<close>.\<close>

definition is_match :: "string \<Rightarrow> Section \<Rightarrow> bool" where
  "is_match query_lower section \<longleftrightarrow>
     0 < title_matches query_lower section \<or> 0 < content_matches query_lower section"

text \<open>
  The stored keywords in the order the lookup visits them: library after library, and
  within a library in insertion order.
\<close>

definition keyword_entries ::
  "(string \<times> (string \<times> KeywordRecord) list) list \<Rightarrow> (string \<times> string \<times> KeywordRecord) list" where
  "keyword_entries libs = concat (map (\<lambda>lib. map (\<lambda>kv. (fst lib, fst kv, snd kv)) (snd lib)) libs)"

definition found_entry :: "string \<times> string \<times> KeywordRecord \<Rightarrow> lookup_result" where
  "found_entry e =
     Found (fst (snd e)) (fst e) (kw_args (snd (snd e))) (kw_doc (snd (snd e)))
       (RF_BASE_LIB_URL @ ''/'' @ fst e @ ''.html'' @ ''#'' @ kw_id (snd (snd e)))"

text \<open>
  What a refresh does to one library, read off the cache and the network alone: the
  content of its file after the download attempt, the outcome of parsing that file, and
  the entry reported for it.
\<close>

definition file_after ::
  "(target \<Rightarrow> string option) \<Rightarrow> bool \<Rightarrow> (target \<Rightarrow> string option) \<Rightarrow> string \<Rightarrow> string option" where
  "file_after net force_refresh fs library_name =
     (if force_refresh \<or> fs (Library library_name) = None then
        (case net (Library library_name) of
           Some content \<Rightarrow> Some content
         | None \<Rightarrow> fs (Library library_name))
      else fs (Library library_name))"

definition library_outcome ::
  "(string \<Rightarrow> json option) \<Rightarrow> (target \<Rightarrow> string option) \<Rightarrow> bool \<Rightarrow> (target \<Rightarrow> string option)
     \<Rightarrow> string \<Rightarrow> parse_error + (string \<times> KeywordRecord) list" where
  "library_outcome json_loads net force_refresh fs library_name =
     parse_library_keywords json_loads library_name (file_after net force_refresh fs library_name)"

definition library_summary :: "parse_error + (string \<times> KeywordRecord) list \<Rightarrow> library_result" where
  "library_summary r =
     (case r of
        Inl e \<Rightarrow> \<lparr>lr_success = False, lr_total_keywords = 0\<rparr>
      | Inr keywords \<Rightarrow> \<lparr>lr_success = True, lr_total_keywords = length keywords\<rparr>)"

definition parsed_keywords ::
  "parse_error + (string \<times> KeywordRecord) list \<Rightarrow> (string \<times> KeywordRecord) list list" where
  "parsed_keywords r = (case r of Inl e \<Rightarrow> [] | Inr keywords \<Rightarrow> [keywords])"

section \<open>Sample data\<close>

definition sample_sections :: "Section list" where
  "sample_sections =
     [\<lparr>s_id = Some ''x'', s_level = 2, s_title = ''x'', s_content = ''run run''\<rparr>,
      \<lparr>s_id = Some ''variables'', s_level = 3, s_title = ''Variables'',
        s_content = ''Scalar variables''\<rparr>,
      \<lparr>s_id = Some ''run-keyword'', s_level = 2, s_title = ''Run Keyword'',
        s_content = ''run a keyword''\<rparr>]"

definition sample_index :: DocumentIndex where
  "sample_index =
     \<lparr>di_version = RF_VERSION, di_total_sections = 3, di_sections = sample_sections\<rparr>"

definition sample_cache :: cache where
  "sample_cache =
     \<lparr>cache_files = (\<lambda>t. None), INDEX_FILE = Some sample_index, KEYWORDS_INDEX = None\<rparr>"

definition sample_keyword :: "string \<Rightarrow> string \<Rightarrow> KeywordRecord" where
  "sample_keyword library_name n =
     \<lparr>kw_name = n, kw_id = replace CHR '' '' ''%20'' n, kw_args = ''item'',
      kw_doc = ''Returns the length.'', kw_library = library_name,
      kw_source = JStr [], kw_lineno = JNum 1\<rparr>"

definition sample_libraries :: "(string \<times> (string \<times> KeywordRecord) list) list" where
  "sample_libraries =
     [(''BuiltIn'',
        [(''Get Length Of'', sample_keyword ''BuiltIn'' ''Get Length Of''),
         (''Get Length'', sample_keyword ''BuiltIn'' ''Get Length'')]),
      (''Collections'',
        [(''get_length'', sample_keyword ''Collections'' ''get_length'')])]"

definition sample_keywords_index :: KeywordsIndex where
  "sample_keywords_index =
     \<lparr>ki_version = RF_VERSION, ki_total_libraries = 2, ki_total_keywords = 3,
      ki_libraries = sample_libraries\<rparr>"




text \<open>
  A network on which the page of \<open>Telnet\<close> cannot be fetched, the page of \<open>XML\<close> has an
  unclosed libdoc object, the page of \<open>BuiltIn\<close> embeds an object with one keyword and
  every other page an empty object; and \<open>json.loads\<close> on those two payloads.
\<close>

definition sample_net :: "target \<Rightarrow> string option" where
  \<open>sample_net t =
     (if t = Library ''Telnet'' then None
      else if t = Library ''XML'' then Some ''libdoc = {''
      else if t = Library ''BuiltIn'' then Some ''libdoc = {"keywords":[{"name":"Log"}]};''
      else Some ''libdoc = {};'')\<close>

definition sample_loads :: "string \<Rightarrow> json option" where
  \<open>sample_loads s =
     (if s = ''{}'' then Some (JObj [])
      else if s = ''{"keywords":[{"name":"Log"}]}''
        then Some (JObj [(''keywords'', JArr [JObj [(''name'', JStr ''Log'')]])])
      else None)\<close>

definition empty_cache :: cache where
  "empty_cache = \<lparr>cache_files = (\<lambda>t. None), INDEX_FILE = None, KEYWORDS_INDEX = None\<rparr>"

section \<open>Properties of the Section Parser\<close>

lemma feed_Nil: "feed p [] = p"
  by (simp add: feed_def)

lemma feed_Cons: "feed p (ev # evs) = feed (handle p ev) evs"
  by (simp add: feed_def)

lemma feed_append: "feed p (a @ b) = feed (feed p a) b"
  by (simp add: feed_def)

lemma handle_init_parser:
  "\<not> heading_start ev \<Longrightarrow> handle init_parser ev = init_parser"
  by (cases ev) (simp_all add: handle_starttag_def handle_endtag_def handle_data_def init_parser_def)

lemma feed_init_parser:
  "\<forall>ev\<in>set pre. \<not> heading_start ev \<Longrightarrow> feed init_parser pre = init_parser"
  by (induction pre) (simp_all add: feed_Nil feed_Cons handle_init_parser)

lemma save_section_handle:
  "map s_level (save_section (handle p ev)) =
     map s_level (save_section p) @ (if heading_start ev then [event_rank ev] else [])"
  by (cases ev)
     (auto simp: handle_starttag_def handle_endtag_def handle_data_def save_section_def Let_def
           split: option.splits)

lemma levels_feed:
  "map s_level (get_sections (feed p evs)) =
     map s_level (get_sections p) @ map event_rank (heading_starts evs)"
proof (induction evs arbitrary: p)
  case Nil
  show ?case by (simp add: feed_Nil heading_starts_def)
next
  case (Cons ev evs)
  show ?case
    using Cons.IH [of "handle p ev"] save_section_handle [of p ev]
    by (simp add: feed_Cons heading_starts_def get_sections_def)
qed

lemma levels_parse:
  "map s_level (parse_sections evs) = map event_rank (heading_starts evs)"
  using levels_feed [of init_parser evs]
  by (simp add: parse_sections_def get_sections_def save_section_def init_parser_def)


lemma sections_handle: "\<exists>m. sections (handle p ev) = sections p @ m"
  by (cases ev)
     (auto simp: handle_starttag_def handle_endtag_def handle_data_def save_section_def Let_def
           split: option.splits)

lemma sections_prefix: "\<exists>more. get_sections (feed p evs) = sections p @ more"
proof (induction evs arbitrary: p)
  case Nil
  show ?case by (auto simp: feed_Nil get_sections_def save_section_def split: option.splits)
next
  case (Cons ev evs)
  obtain m where m: "sections (handle p ev) = sections p @ m"
    using sections_handle by blast
  obtain more where "get_sections (feed (handle p ev) evs) = sections (handle p ev) @ more"
    using Cons.IH by blast
  with m show ?case by (simp add: feed_Cons)
qed

lemma closed_heading_kept:
  "current_section p = Some cs \<Longrightarrow> \<not> in_section p \<Longrightarrow>
   \<exists>c more. get_sections (feed p evs) = sections p @ cs\<lparr>s_content := c\<rparr> # more"
proof (induction evs arbitrary: p)
  case Nil
  then show ?case by (simp add: feed_Nil get_sections_def save_section_def) (rule exI, rule refl)
next
  case (Cons ev evs)
  show ?case
  proof (cases "heading_start ev")
    case True
    then obtain tag attrs where ev: "ev = StartTag tag attrs" and h: "is_heading tag"
      by (cases ev) auto
    have "sections (handle p ev) =
            sections p @ [cs\<lparr>s_content := strip (join '' '' (current_content p))\<rparr>]"
      using Cons.prems ev h by (simp add: handle_starttag_def save_section_def)
    moreover obtain more where
      "get_sections (feed (handle p ev) evs) = sections (handle p ev) @ more"
      using sections_prefix by blast
    ultimately show ?thesis by (simp add: feed_Cons) (rule exI, rule refl)
  next
    case False
    have "current_section (handle p ev) = Some cs" "\<not> in_section (handle p ev)"
         "sections (handle p ev) = sections p"
      using Cons.prems False
      by (cases ev; simp add: handle_starttag_def handle_endtag_def handle_data_def Let_def)+
    then show ?thesis using Cons.IH [of "handle p ev"] by (simp add: feed_Cons)
  qed
qed

lemma title_feed:
  "current_section p = Some cs \<Longrightarrow> in_section p \<Longrightarrow>
   \<forall>ev\<in>set tv. \<not> heading_start ev \<and> \<not> heading_end ev \<Longrightarrow>
   feed p tv =
     p\<lparr>current_section :=
         Some (cs\<lparr>s_title := (if fragments tv = [] then s_title cs
                               else strip (last (fragments tv)))\<rparr>)\<rparr>"
proof (induction tv arbitrary: p cs)
  case Nil
  then show ?case by (simp add: feed_Nil fragments_def)
next
  case (Cons ev tv)
  show ?case
  proof (cases ev)
    case (StartTag tag attrs)
    then have "handle p ev = p" using Cons.prems by (simp add: handle_starttag_def)
    then show ?thesis using Cons.IH [of p cs] Cons.prems StartTag
      by (simp add: feed_Cons fragments_def)
  next
    case (EndTag tag)
    then have "handle p ev = p" using Cons.prems by (simp add: handle_endtag_def)
    then show ?thesis using Cons.IH [of p cs] Cons.prems EndTag
      by (simp add: feed_Cons fragments_def)
  next
    case (Data d)
    let ?p = "p\<lparr>current_section := Some (cs\<lparr>s_title := strip d\<rparr>)\<rparr>"
    have h: "handle p ev = ?p" using Cons.prems Data by (simp add: handle_data_def)
    have "feed ?p tv = ?p\<lparr>current_section :=
         Some (cs\<lparr>s_title := strip d\<rparr>\<lparr>s_title := (if fragments tv = [] then s_title (cs\<lparr>s_title := strip d\<rparr>)
                               else strip (last (fragments tv)))\<rparr>)\<rparr>"
      using Cons.prems by (intro Cons.IH) simp_all
    then show ?thesis using h Data
      by (simp add: feed_Cons fragments_def)
  qed
qed



lemma length_closed:
  "length (get_sections (feed init_parser pre)) = length (heading_starts pre)"
  using arg_cong [OF levels_parse [of pre], of length] by (simp add: parse_sections_def)

lemma after_heading:
  assumes h: "heading_start h"
    and tv: "\<forall>ev\<in>set tv. \<not> heading_start ev \<and> \<not> heading_end ev"
    and e: "heading_end e"
  shows "\<exists>p cs. feed init_parser (pre @ h # tv @ [e]) = p \<and> current_section p = Some cs \<and>
           \<not> in_section p \<and> current_content p = [] \<and>
           sections p = get_sections (feed init_parser pre) \<and>
           s_title cs = (if fragments tv = [] then [] else strip (last (fragments tv)))"
proof -
  obtain tag attrs where hev: "h = StartTag tag attrs" and ht: "is_heading tag"
    using h by (cases h) auto
  obtain tag' where eev: "e = EndTag tag'" and et: "is_heading tag'"
    using e by (cases e) auto
  let ?p1 = "feed init_parser pre"
  let ?new = "\<lparr>s_id = attrs_get_id attrs, s_level = heading_rank tag,
                s_title = [], s_content = []\<rparr>"
  let ?p2 = "handle ?p1 h"
  have p2: "current_section ?p2 = Some ?new" "in_section ?p2" "current_content ?p2 = []"
    "sections ?p2 = get_sections ?p1"
    using hev ht by (simp_all add: handle_starttag_def get_sections_def)
  let ?t = "if fragments tv = [] then [] else strip (last (fragments tv))"
  have p3: "feed ?p2 tv = ?p2\<lparr>current_section := Some (?new\<lparr>s_title := ?t\<rparr>)\<rparr>"
    using title_feed [OF p2(1) p2(2) tv] by simp
  have "feed init_parser (pre @ h # tv @ [e]) = handle (feed ?p2 tv) e"
    by (simp add: feed_append feed_Cons feed_Nil)
  also have "\<dots> = ?p2\<lparr>current_section := Some (?new\<lparr>s_title := ?t\<rparr>), in_section := False\<rparr>"
    using p3 eev et by (simp add: handle_endtag_def)
  finally show ?thesis using p2 by simp
qed


text \<open>
  Claim C10. Whatever precedes the first heading start tag leaves no trace: the parser
  returns the same sections with or without it, and none for the prefix alone.
\<close>

theorem text_before_first_heading_discarded:
  "(\<forall>ev\<in>set pre. \<not> heading_start ev) \<longrightarrow>
     parse_sections (pre @ rest) = parse_sections rest \<and> parse_sections pre = []"
  using feed_append [of init_parser pre rest] feed_init_parser [of pre]
  by (auto simp: parse_sections_def get_sections_def save_section_def init_parser_def feed_Nil)

text \<open>
  Claim C2, amended. \<open>handle_data\<close> overwrites the title at every text fragment inside
  the heading, so the Section's title is the last fragment between the start tag and the
  end tag, trimmed (the empty string when that fragment is blank or when there is none),
  and the earlier fragments are dropped.
\<close>

theorem title_is_last_fragment:
  "heading_start h \<and> (\<forall>ev\<in>set tv. \<not> heading_start ev \<and> \<not> heading_end ev) \<and>
   heading_end e \<longrightarrow>
     length (heading_starts pre) < length (parse_sections (pre @ h # tv @ e # rest)) \<and>
     s_title (parse_sections (pre @ h # tv @ e # rest) ! length (heading_starts pre)) =
       (if fragments tv = [] then [] else strip (last (fragments tv)))"
proof
  assume a: "heading_start h \<and> (\<forall>ev\<in>set tv. \<not> heading_start ev \<and> \<not> heading_end ev) \<and>
   heading_end e"
  then obtain p cs where p: "feed init_parser (pre @ h # tv @ [e]) = p"
    "current_section p = Some cs" "\<not> in_section p"
    "sections p = get_sections (feed init_parser pre)"
    "s_title cs = (if fragments tv = [] then [] else strip (last (fragments tv)))"
    using after_heading [of h tv e pre] by blast
  have "feed init_parser (pre @ h # tv @ e # rest) = feed p rest"
    using p(1) feed_append [of init_parser "pre @ h # tv @ [e]" rest] by simp
  moreover obtain c more where
    "get_sections (feed p rest) = sections p @ cs\<lparr>s_content := c\<rparr> # more"
    using closed_heading_kept [OF p(2) p(3)] by blast
  ultimately have eq: "parse_sections (pre @ h # tv @ e # rest) =
      sections p @ cs\<lparr>s_content := c\<rparr> # more"
    by (simp add: parse_sections_def)
  have len: "length (sections p) = length (heading_starts pre)"
    using p(4) length_closed by simp
  show "length (heading_starts pre) < length (parse_sections (pre @ h # tv @ e # rest)) \<and>
     s_title (parse_sections (pre @ h # tv @ e # rest) ! length (heading_starts pre)) =
       (if fragments tv = [] then [] else strip (last (fragments tv)))"
    unfolding eq using len p(5) by (simp add: nth_append)
qed



theorem text_before_first_heading_discarded_witness:
  "list_all (\<lambda>ev. \<not> heading_start ev) [Data ''preface'', StartTag ''p'' [], Data ''more''] \<and>
   parse_sections ([Data ''preface'', StartTag ''p'' [], Data ''more''] @
                   [StartTag ''h1'' [], Data ''T'', EndTag ''h1'', Data ''body'']) =
     parse_sections [StartTag ''h1'' [], Data ''T'', EndTag ''h1'', Data ''body''] \<and>
   parse_sections [Data ''preface'', StartTag ''p'' [], Data ''more''] = []"
proof -
  have hyp: "\<forall>ev\<in>set [Data ''preface'', StartTag ''p'' [], Data ''more''].
      \<not> heading_start ev"
    by (simp add: is_heading_def)
  show ?thesis
    using text_before_first_heading_discarded
      [of "[Data ''preface'', StartTag ''p'' [], Data ''more'']"
          "[StartTag ''h1'' [], Data ''T'', EndTag ''h1'', Data ''body'']"] hyp
    by (simp add: is_heading_def)
qed

text \<open>
  Claim C2, as stated, fails: for the heading \<open><h2>Foo <b>bar</b></h2>\<close> the parser
  keeps the title \<open>bar\<close>, while the first non-empty fragment is \<open>Foo\<close>.
\<close>

theorem title_first_fragment_counterexample:
  "s_title (hd (parse_sections
      [StartTag ''h2'' [], Data ''Foo '', StartTag ''b'' [], Data ''bar'', EndTag ''b'',
       EndTag ''h2''])) = ''bar'' \<and>
   first_nonempty_fragment (fragments [Data ''Foo '', StartTag ''b'' [], Data ''bar'',
       EndTag ''b'']) = ''Foo'' \<and>
   s_title (hd (parse_sections
      [StartTag ''h2'' [], Data ''Foo '', StartTag ''b'' [], Data ''bar'', EndTag ''b'',
       EndTag ''h2''])) \<noteq>
   first_nonempty_fragment (fragments [Data ''Foo '', StartTag ''b'' [], Data ''bar'',
       EndTag ''b''])"
  by (simp add: parse_sections_def get_sections_def save_section_def feed_def init_parser_def
      handle_starttag_def handle_endtag_def handle_data_def is_heading_def
      first_nonempty_fragment_def fragments_def strip_def lstrip_def rstrip_def isspace_def)

theorem title_is_last_fragment_witness:
  "heading_start (StartTag ''h2'' []) \<and>
   list_all (\<lambda>ev. \<not> heading_start ev \<and> \<not> heading_end ev)
     [Data ''Foo '', StartTag ''b'' [], Data ''bar '', EndTag ''b''] \<and>
   heading_end (EndTag ''h2'') \<and>
   s_title (parse_sections
      ([StartTag ''h1'' [], Data ''A'', EndTag ''h1''] @ StartTag ''h2'' [] #
       [Data ''Foo '', StartTag ''b'' [], Data ''bar '', EndTag ''b''] @ EndTag ''h2'' #
       [Data ''text'', StartTag ''h3'' [], Data ''C'', EndTag ''h3'']) ! 1) = ''bar''"
proof -
  have hyp: "heading_start (StartTag ''h2'' []) \<and>
   (\<forall>ev\<in>set [Data ''Foo '', StartTag ''b'' [], Data ''bar '', EndTag ''b''].
      \<not> heading_start ev \<and> \<not> heading_end ev) \<and>
   heading_end (EndTag ''h2'')"
    by (simp add: is_heading_def)
  have n: "length (heading_starts [StartTag ''h1'' [], Data ''A'', EndTag ''h1'']) = 1"
    by (simp add: heading_starts_def is_heading_def)
  have t: "(if fragments [Data ''Foo '', StartTag ''b'' [], Data ''bar '', EndTag ''b''] = []
            then []
            else strip (last (fragments
                   [Data ''Foo '', StartTag ''b'' [], Data ''bar '', EndTag ''b'']))) = ''bar''"
    by (simp add: fragments_def strip_def lstrip_def rstrip_def isspace_def)
  show ?thesis
    using title_is_last_fragment
      [of "StartTag ''h2'' []" "[Data ''Foo '', StartTag ''b'' [], Data ''bar '', EndTag ''b'']"
          "EndTag ''h2''" "[StartTag ''h1'' [], Data ''A'', EndTag ''h1'']"
          "[Data ''text'', StartTag ''h3'' [], Data ''C'', EndTag ''h3'']"]
      hyp n t
    by simp
qed


section \<open>Properties of the Search Engine\<close>

lemma startswith_iff: "startswith s sub \<longleftrightarrow> (\<exists>b. s = sub @ b)"
  by (induction s sub rule: startswith.induct) auto

lemma count_nonempty_pos:
  "sub \<noteq> [] \<Longrightarrow> 0 < count_nonempty s sub \<longleftrightarrow> (\<exists>a b. s = a @ sub @ b)"
proof (induction s)
  case Nil
  then show ?case by simp
next
  case (Cons x xs)
  show ?case
  proof (cases "startswith (x # xs) sub")
    case True
    then obtain b where "x # xs = [] @ sub @ b" by (auto simp: startswith_iff)
    then have "\<exists>a b. x # xs = a @ sub @ b" by blast
    with True show ?thesis by simp
  next
    case False
    have "(\<exists>a b. x # xs = a @ sub @ b) \<longleftrightarrow> (\<exists>a b. xs = a @ sub @ b)"
    proof
      assume "\<exists>a b. x # xs = a @ sub @ b"
      then obtain a b where ab: "x # xs = a @ sub @ b" by blast
      show "\<exists>a b. xs = a @ sub @ b"
      proof (cases a)
        case Nil
        with ab False show ?thesis by (auto simp: startswith_iff)
      next
        case (Cons y ys)
        with ab have "xs = ys @ sub @ b" by simp
        then show ?thesis by blast
      qed
    next
      assume "\<exists>a b. xs = a @ sub @ b"
      then obtain a b where "xs = a @ sub @ b" by blast
      then have "x # xs = (x # a) @ sub @ b" by simp
      then show "\<exists>a b. x # xs = a @ sub @ b" by blast
    qed
    with False Cons show ?thesis by simp
  qed
qed

lemma str_count_pos: "0 < str_count s sub \<longleftrightarrow> (\<exists>a b. s = a @ sub @ b)"
proof (cases "sub = []")
  case True
  have "s = [] @ [] @ s" by simp
  then have "\<exists>a b. s = a @ [] @ b" by blast
  with True show ?thesis by (simp add: str_count_def)
next
  case False
  then show ?thesis by (simp add: str_count_def count_nonempty_pos)
qed


lemma collect_results_eq:
  "collect_results q acc secs = acc @ map (make_result q) (filter (is_match q) secs)"
  by (induction secs arbitrary: acc) (simp_all add: is_match_def)

lemma sorted_ranked:
  "sorted_wrt (\<lambda>a b. sr_relevance b \<le> sr_relevance a) (sort_by_relevance rs)"
proof -
  have "sorted (map (\<lambda>x. - int (sr_relevance x)) (sort_by_relevance rs))"
    unfolding sort_by_relevance_def by (rule sorted_sort_key)
  then show ?thesis by (simp add: sorted_map)
qed

lemma stable_ranked:
  "filter (\<lambda>r. sr_relevance r = k) (sort_by_relevance rs) = filter (\<lambda>r. sr_relevance r = k) rs"
proof -
  have eq: "(\<lambda>r. sr_relevance r = k) = (\<lambda>r. - int (sr_relevance r) = - int k)" by auto
  show ?thesis unfolding eq sort_by_relevance_def by (rule sort_key_stable)
qed

lemma set_ranked: "set (ranked_results secs query) =
    make_result (lower query) ` {s \<in> set secs. is_match (lower query) s}"
  by (auto simp: ranked_results_def sort_by_relevance_def collect_results_eq)

lemma length_ranked: "length (ranked_results secs query) =
    length (filter (is_match (lower query)) secs)"
  by (simp add: ranked_results_def sort_by_relevance_def collect_results_eq)

lemma slice_to_take: "\<exists>j. slice_to xs n = take j xs"
  by (auto simp: slice_to_def)

lemma is_match_iff:
  "is_match q s \<longleftrightarrow>
     (\<exists>a b. lower (s_title s) = a @ q @ b) \<or> (\<exists>a b. lower (s_content s) = a @ q @ b)"
  by (simp add: is_match_def title_matches_def content_matches_def str_count_pos)

lemma make_result_match:
  "make_result q s = make_result q s' \<Longrightarrow> is_match q s' \<Longrightarrow> is_match q s"
proof -
  assume "make_result q s = make_result q s'" and m: "is_match q s'"
  then have "sr_relevance (make_result q s) = sr_relevance (make_result q s')" by simp
  then have "title_matches q s * 10 + content_matches q s =
             title_matches q s' * 10 + content_matches q s'"
    by (simp add: make_result_def)
  with m show ?thesis unfolding is_match_def by linarith
qed


lemma relevance_make_result:
  "sr_relevance (make_result q s) =
     10 * str_count (lower (s_title s)) q + str_count (lower (s_content s)) q"
  by (simp add: make_result_def title_matches_def content_matches_def)


lemma ranked_example:
  "map (\<lambda>r. (sr_title r, sr_relevance r))
     (ranked_results
        [\<lparr>s_id = Some ''a'', s_level = 2, s_title = ''Run Keyword'', s_content = ''run a keyword''\<rparr>,
         \<lparr>s_id = Some ''b'', s_level = 2, s_title = ''x'', s_content = ''run run''\<rparr>]
        ''run'') = [(''Run Keyword'', 11), (''x'', 2)]"
  by code_simp


lemma ranked_sorted:
  "sorted_wrt (\<lambda>a b. sr_relevance b \<le> sr_relevance a) (ranked_results secs query)"
  by (simp add: ranked_results_def sorted_ranked)

lemma ranked_stable:
  "filter (\<lambda>r. sr_relevance r = k) (ranked_results secs query) =
     filter (\<lambda>r. sr_relevance r = k)
       (map (make_result (lower query)) (filter (is_match (lower query)) secs))"
  by (simp add: ranked_results_def stable_ranked collect_results_eq)

lemma ranked_member:
  assumes "r \<in> set (take j (ranked_results secs query))"
  shows "\<exists>s\<in>set secs. r = make_result (lower query) s \<and>
           sr_relevance r =
             10 * str_count (lower (s_title s)) (lower query) +
             str_count (lower (s_content s)) (lower query)"
proof -
  from assms have "r \<in> set (ranked_results secs query)" by (rule in_set_takeD)
  then obtain s where s: "s \<in> set secs" "r = make_result (lower query) s"
    unfolding set_ranked by blast
  show ?thesis
  proof (rule bexI [OF _ s(1)])
    show "r = make_result (lower query) s \<and>
           sr_relevance r =
             10 * str_count (lower (s_title s)) (lower query) +
             str_count (lower (s_content s)) (lower query)"
      using s(2) by (simp add: relevance_make_result)
  qed
qed

lemma search_output:
  assumes idx: "INDEX_FILE c = Some idx"
  shows "\<exists>out. search_rf_documentation c query max_results = Inr out \<and>
        (\<exists>j. out_results out = take j (ranked_results (di_sections idx) query)) \<and>
        (\<forall>r\<in>set (out_results out). \<exists>s\<in>set (di_sections idx).
           r = make_result (lower query) s \<and>
           sr_relevance r =
             10 * str_count (lower (s_title s)) (lower query) +
             str_count (lower (s_content s)) (lower query)) \<and>
        sorted_wrt (\<lambda>a b. sr_relevance b \<le> sr_relevance a) (out_results out)"
proof -
  let ?ranked = "ranked_results (di_sections idx) query"
  obtain j where j: "slice_to ?ranked max_results = take j ?ranked"
    using slice_to_take by blast
  let ?out = "\<lparr>out_query = query, out_total_matches = length ?ranked,
               out_results = take j ?ranked\<rparr>"
  have 1: "search_rf_documentation c query max_results = Inr ?out"
    using idx j by (simp add: search_rf_documentation_def Let_def)
  have 2: "\<exists>i. out_results ?out = take i ?ranked" by (rule exI [of _ j]) simp
  have 3: "\<forall>r\<in>set (out_results ?out). \<exists>s\<in>set (di_sections idx).
           r = make_result (lower query) s \<and>
           sr_relevance r =
             10 * str_count (lower (s_title s)) (lower query) +
             str_count (lower (s_content s)) (lower query)"
    using ranked_member [of _ j "di_sections idx" query] by simp
  have 4: "sorted_wrt (\<lambda>a b. sr_relevance b \<le> sr_relevance a) (out_results ?out)"
    using ranked_sorted [of "di_sections idx" query] by (simp add: sorted_wrt_take)
  show ?thesis
    by (rule exI [of _ ?out]) (intro conjI 1 2 3 4)
qed

text \<open>
  Claim C3. Every returned result is built from a section of the index and has the
  relevance ten times the count of the lowered query in the lowered title plus its count
  in the lowered content; the returned list is a prefix of the ranked list and is sorted
  by descending relevance; results of equal relevance keep the order of the document; and
  on the two sections of the example the query \<open>run\<close> scores 11 and 2, in this order.
\<close>

theorem search_relevance_ranking:
  "(INDEX_FILE c = Some idx \<longrightarrow>
     (\<exists>out. search_rf_documentation c query max_results = Inr out \<and>
        (\<exists>j. out_results out = take j (ranked_results (di_sections idx) query)) \<and>
        (\<forall>r\<in>set (out_results out). \<exists>s\<in>set (di_sections idx).
           r = make_result (lower query) s \<and>
           sr_relevance r =
             10 * str_count (lower (s_title s)) (lower query) +
             str_count (lower (s_content s)) (lower query)) \<and>
        sorted_wrt (\<lambda>a b. sr_relevance b \<le> sr_relevance a) (out_results out))) \<and>
   sorted_wrt (\<lambda>a b. sr_relevance b \<le> sr_relevance a) (ranked_results secs query) \<and>
   (\<forall>k. filter (\<lambda>r. sr_relevance r = k) (ranked_results secs query) =
        filter (\<lambda>r. sr_relevance r = k)
          (map (make_result (lower query)) (filter (is_match (lower query)) secs))) \<and>
   map (\<lambda>r. (sr_title r, sr_relevance r))
     (ranked_results
        [\<lparr>s_id = Some ''a'', s_level = 2, s_title = ''Run Keyword'', s_content = ''run a keyword''\<rparr>,
         \<lparr>s_id = Some ''b'', s_level = 2, s_title = ''x'', s_content = ''run run''\<rparr>]
        ''run'') = [(''Run Keyword'', 11), (''x'', 2)]"
  by (intro conjI impI allI search_output ranked_sorted ranked_stable ranked_example)


lemma match_member:
  "\<forall>s\<in>set secs.
      make_result (lower query) s \<in> set (ranked_results secs query) \<longleftrightarrow>
        (\<exists>a b. lower (s_title s) = a @ lower query @ b) \<or>
        (\<exists>a b. lower (s_content s) = a @ lower query @ b)"
proof
  fix s assume s: "s \<in> set secs"
  have "make_result (lower query) s \<in> set (ranked_results secs query) \<longleftrightarrow>
          is_match (lower query) s"
  proof
    assume "make_result (lower query) s \<in> set (ranked_results secs query)"
    then obtain s' where "is_match (lower query) s'"
      "make_result (lower query) s = make_result (lower query) s'"
      unfolding set_ranked by blast
    then show "is_match (lower query) s" using make_result_match by blast
  next
    assume "is_match (lower query) s"
    with s show "make_result (lower query) s \<in> set (ranked_results secs query)"
      unfolding set_ranked by blast
  qed
  then show "make_result (lower query) s \<in> set (ranked_results secs query) \<longleftrightarrow>
        (\<exists>a b. lower (s_title s) = a @ lower query @ b) \<or>
        (\<exists>a b. lower (s_content s) = a @ lower query @ b)"
    unfolding is_match_iff .
qed

lemma is_match_ext:
  "is_match q = (\<lambda>s. (\<exists>a b. lower (s_title s) = a @ q @ b) \<or>
                      (\<exists>a b. lower (s_content s) = a @ q @ b))"
  by (rule ext) (rule is_match_iff)

lemma match_set:
  "set (ranked_results secs query) =
     make_result (lower query) `
       {s \<in> set secs. (\<exists>a b. lower (s_title s) = a @ lower query @ b) \<or>
                       (\<exists>a b. lower (s_content s) = a @ lower query @ b)}"
  unfolding set_ranked is_match_ext ..

lemma match_length:
  "length (ranked_results secs query) =
     length (filter (\<lambda>s. (\<exists>a b. lower (s_title s) = a @ lower query @ b) \<or>
                         (\<exists>a b. lower (s_content s) = a @ lower query @ b)) secs)"
  unfolding length_ranked is_match_ext ..

lemma is_match_empty: "is_match [] s"
  by (simp add: is_match_def title_matches_def str_count_def)

lemma empty_query_set: "set (ranked_results secs []) = make_result [] ` set secs"
  by (simp add: set_ranked lower_def is_match_empty)

lemma empty_query_length: "length (ranked_results secs []) = length secs"
  by (simp add: length_ranked lower_def is_match_empty)

lemma empty_query_search:
  "INDEX_FILE c = Some idx \<longrightarrow>
      (\<exists>out. search_rf_documentation c [] max_results = Inr out \<and>
             out_total_matches out = length (di_sections idx))"
  by (simp add: search_rf_documentation_def Let_def empty_query_length)

lemma slice_to_all: "int (length xs) \<le> n \<Longrightarrow> slice_to xs n = xs"
  by (simp add: slice_to_def)

lemma search_output_matches:
  "INDEX_FILE c = Some idx \<longrightarrow>
     (\<exists>out. search_rf_documentation c query max_results = Inr out \<and>
        out_results out = slice_to (ranked_results (di_sections idx) query) max_results \<and>
        out_total_matches out =
          length (filter (\<lambda>s. (\<exists>a b. lower (s_title s) = a @ lower query @ b) \<or>
                              (\<exists>a b. lower (s_content s) = a @ lower query @ b))
                    (di_sections idx)) \<and>
        (\<forall>r\<in>set (out_results out). \<exists>s\<in>set (di_sections idx).
           r = make_result (lower query) s \<and>
           ((\<exists>a b. lower (s_title s) = a @ lower query @ b) \<or>
            (\<exists>a b. lower (s_content s) = a @ lower query @ b))) \<and>
        (int (out_total_matches out) \<le> max_results \<longrightarrow>
           (\<forall>s\<in>set (di_sections idx).
              make_result (lower query) s \<in> set (out_results out) \<longleftrightarrow>
                (\<exists>a b. lower (s_title s) = a @ lower query @ b) \<or>
                (\<exists>a b. lower (s_content s) = a @ lower query @ b))) \<and>
        (query = [] \<longrightarrow>
           out_total_matches out = length (di_sections idx) \<and>
           (int (length (di_sections idx)) \<le> max_results \<longrightarrow>
              set (out_results out) = make_result [] ` set (di_sections idx))))"
proof
  assume idx: "INDEX_FILE c = Some idx"
  let ?secs = "di_sections idx"
  let ?ranked = "ranked_results ?secs query"
  let ?cond = "\<lambda>s. (\<exists>a b. lower (s_title s) = a @ lower query @ b) \<or>
                    (\<exists>a b. lower (s_content s) = a @ lower query @ b)"
  let ?out = "\<lparr>out_query = query, out_total_matches = length ?ranked,
               out_results = slice_to ?ranked max_results\<rparr>"
  have 1: "search_rf_documentation c query max_results = Inr ?out"
    using idx by (simp add: search_rf_documentation_def Let_def)
  have 2: "out_results ?out = slice_to ?ranked max_results" by simp
  have 3: "out_total_matches ?out = length (filter ?cond ?secs)"
    using match_length [of ?secs query] by simp
  have 4: "\<forall>r\<in>set (out_results ?out). \<exists>s\<in>set ?secs.
             r = make_result (lower query) s \<and> ?cond s"
  proof
    fix r assume "r \<in> set (out_results ?out)"
    moreover obtain j where "slice_to ?ranked max_results = take j ?ranked"
      using slice_to_take by blast
    ultimately have "r \<in> set ?ranked" by (auto dest: in_set_takeD)
    then show "\<exists>s\<in>set ?secs. r = make_result (lower query) s \<and> ?cond s"
      unfolding match_set by blast
  qed
  have 5: "int (out_total_matches ?out) \<le> max_results \<longrightarrow>
           (\<forall>s\<in>set ?secs. make_result (lower query) s \<in> set (out_results ?out) \<longleftrightarrow> ?cond s)"
  proof
    assume "int (out_total_matches ?out) \<le> max_results"
    then have "slice_to ?ranked max_results = ?ranked" by (intro slice_to_all) simp
    then show "\<forall>s\<in>set ?secs.
        make_result (lower query) s \<in> set (out_results ?out) \<longleftrightarrow> ?cond s"
      using match_member [of ?secs query] by simp
  qed
  have 6: "query = [] \<longrightarrow>
           out_total_matches ?out = length ?secs \<and>
           (int (length ?secs) \<le> max_results \<longrightarrow>
              set (out_results ?out) = make_result [] ` set ?secs)"
  proof
    assume q: "query = []"
    have l: "length ?ranked = length ?secs" unfolding q by (rule empty_query_length)
    have "set (out_results ?out) = make_result [] ` set ?secs"
      if "int (length ?secs) \<le> max_results"
    proof -
      from that l have "slice_to ?ranked max_results = ?ranked" by (intro slice_to_all) simp
      then show ?thesis unfolding q using empty_query_set [of ?secs] by simp
    qed
    with l show "out_total_matches ?out = length ?secs \<and>
           (int (length ?secs) \<le> max_results \<longrightarrow>
              set (out_results ?out) = make_result [] ` set ?secs)" by simp
  qed
  show "\<exists>out. search_rf_documentation c query max_results = Inr out \<and>
        out_results out = slice_to (ranked_results (di_sections idx) query) max_results \<and>
        out_total_matches out = length (filter ?cond (di_sections idx)) \<and>
        (\<forall>r\<in>set (out_results out). \<exists>s\<in>set (di_sections idx).
           r = make_result (lower query) s \<and> ?cond s) \<and>
        (int (out_total_matches out) \<le> max_results \<longrightarrow>
           (\<forall>s\<in>set (di_sections idx).
              make_result (lower query) s \<in> set (out_results out) \<longleftrightarrow> ?cond s)) \<and>
        (query = [] \<longrightarrow>
           out_total_matches out = length (di_sections idx) \<and>
           (int (length (di_sections idx)) \<le> max_results \<longrightarrow>
              set (out_results out) = make_result [] ` set (di_sections idx)))"
    by (rule exI [of _ ?out]) (intro conjI 1 2 3 4 5 6)
qed

text \<open>
  Claim C9. For every query the search returns, up to the cap \<open>max_results\<close>, the ranked
  matches; every returned result comes from a section in whose lowered title or lowered
  content the lowered query occurs as a run of consecutive characters; the reported
  number of matches is the number of such sections; when the cap does not cut, a section
  of the index is among the returned matches exactly when the query occurs in it that
  way; and the empty query matches every section of the index.
\<close>

theorem search_matches_substring:
  "(INDEX_FILE c = Some idx \<longrightarrow>
     (\<exists>out. search_rf_documentation c query max_results = Inr out \<and>
        out_results out = slice_to (ranked_results (di_sections idx) query) max_results \<and>
        out_total_matches out =
          length (filter (\<lambda>s. (\<exists>a b. lower (s_title s) = a @ lower query @ b) \<or>
                              (\<exists>a b. lower (s_content s) = a @ lower query @ b))
                    (di_sections idx)) \<and>
        (\<forall>r\<in>set (out_results out). \<exists>s\<in>set (di_sections idx).
           r = make_result (lower query) s \<and>
           ((\<exists>a b. lower (s_title s) = a @ lower query @ b) \<or>
            (\<exists>a b. lower (s_content s) = a @ lower query @ b))) \<and>
        (int (out_total_matches out) \<le> max_results \<longrightarrow>
           (\<forall>s\<in>set (di_sections idx).
              make_result (lower query) s \<in> set (out_results out) \<longleftrightarrow>
                (\<exists>a b. lower (s_title s) = a @ lower query @ b) \<or>
                (\<exists>a b. lower (s_content s) = a @ lower query @ b))) \<and>
        (query = [] \<longrightarrow>
           out_total_matches out = length (di_sections idx) \<and>
           (int (length (di_sections idx)) \<le> max_results \<longrightarrow>
              set (out_results out) = make_result [] ` set (di_sections idx))))) \<and>
   (\<forall>s\<in>set secs.
      make_result (lower query) s \<in> set (ranked_results secs query) \<longleftrightarrow>
        (\<exists>a b. lower (s_title s) = a @ lower query @ b) \<or>
        (\<exists>a b. lower (s_content s) = a @ lower query @ b)) \<and>
   set (ranked_results secs query) =
     make_result (lower query) `
       {s \<in> set secs. (\<exists>a b. lower (s_title s) = a @ lower query @ b) \<or>
                       (\<exists>a b. lower (s_content s) = a @ lower query @ b)} \<and>
   length (ranked_results secs query) =
     length (filter (\<lambda>s. (\<exists>a b. lower (s_title s) = a @ lower query @ b) \<or>
                         (\<exists>a b. lower (s_content s) = a @ lower query @ b)) secs) \<and>
   set (ranked_results secs []) = make_result [] ` set secs \<and>
   length (ranked_results secs []) = length secs \<and>
   (INDEX_FILE c = Some idx \<longrightarrow>
      (\<exists>out. search_rf_documentation c [] max_results = Inr out \<and>
             out_total_matches out = length (di_sections idx)))"
  by (intro conjI search_output_matches match_member match_set match_length empty_query_set
      empty_query_length empty_query_search)

lemma sample_search:
  "search_rf_documentation sample_cache ''RUN'' 1 =
     Inr \<lparr>out_query = ''RUN'', out_total_matches = 2,
          out_results = [make_result ''run'' (sample_sections ! 2)]\<rparr>"
  by code_simp

lemma sample_relevance:
  "sr_relevance (make_result ''run'' (sample_sections ! 2)) = 11 \<and>
   sr_title (make_result ''run'' (sample_sections ! 2)) = ''Run Keyword''"
  by code_simp

theorem search_relevance_ranking_witness:
  "INDEX_FILE sample_cache = Some sample_index \<and>
   (\<exists>out. search_rf_documentation sample_cache ''RUN'' 1 = Inr out \<and>
      out_total_matches out = 2 \<and>
      map (\<lambda>r. (sr_title r, sr_relevance r)) (out_results out) = [(''Run Keyword'', 11)] \<and>
      sorted_wrt (\<lambda>a b. sr_relevance b \<le> sr_relevance a) (out_results out))"
proof -
  have idx: "INDEX_FILE sample_cache = Some sample_index"
    by (simp add: sample_cache_def)
  note w = search_relevance_ranking [of sample_cache sample_index "''RUN''" 1,
      THEN conjunct1, THEN mp, OF idx]
  then obtain out where out: "search_rf_documentation sample_cache ''RUN'' 1 = Inr out"
    and srt: "sorted_wrt (\<lambda>a b. sr_relevance b \<le> sr_relevance a) (out_results out)"
    by blast
  have eq: "out = \<lparr>out_query = ''RUN'', out_total_matches = 2,
          out_results = [make_result ''run'' (sample_sections ! 2)]\<rparr>"
    using out sample_search by simp
  have t: "out_total_matches out = 2" unfolding eq by simp
  have r: "map (\<lambda>r. (sr_title r, sr_relevance r)) (out_results out) = [(''Run Keyword'', 11)]"
    unfolding eq using sample_relevance by simp
  show ?thesis
    by (intro conjI idx exI [of _ out] out t r srt)
qed

lemma sample_counts:
  "lower ''RUN'' = ''run'' \<and>
   0 < str_count (lower (s_content (sample_sections ! 0))) ''run'' \<and>
   str_count (lower (s_title (sample_sections ! 1))) ''run'' = 0 \<and>
   str_count (lower (s_content (sample_sections ! 1))) ''run'' = 0 \<and>
   sample_sections ! 0 \<in> set sample_sections \<and>
   sample_sections ! 1 \<in> set sample_sections"
  by code_simp

lemma sample_search_uncapped:
  "search_rf_documentation sample_cache ''RUN'' 10 =
     Inr \<lparr>out_query = ''RUN'', out_total_matches = 2,
          out_results = [make_result ''run'' (sample_sections ! 2),
                         make_result ''run'' (sample_sections ! 0)]\<rparr>"
  by code_simp

theorem search_matches_substring_witness:
  "INDEX_FILE sample_cache = Some sample_index \<and>
   (\<exists>out. search_rf_documentation sample_cache ''RUN'' 10 = Inr out \<and>
      out_total_matches out = 2 \<and>
      make_result (lower ''RUN'') (sample_sections ! 0) \<in> set (out_results out) \<and>
      make_result (lower ''RUN'') (sample_sections ! 1) \<notin> set (out_results out)) \<and>
   (\<exists>out. search_rf_documentation sample_cache [] 10 = Inr out \<and>
      out_total_matches out = 3)"
proof -
  have idx: "INDEX_FILE sample_cache = Some sample_index"
    by (simp add: sample_cache_def)
  have secs: "di_sections sample_index = sample_sections"
    by (simp add: sample_index_def)
  note t = search_matches_substring [of sample_cache sample_index "''RUN''" 10,
      THEN conjunct1, THEN mp, OF idx]
  then obtain out where out: "search_rf_documentation sample_cache ''RUN'' 10 = Inr out"
    and mem: "int (out_total_matches out) \<le> 10 \<longrightarrow>
           (\<forall>s\<in>set (di_sections sample_index).
              make_result (lower ''RUN'') s \<in> set (out_results out) \<longleftrightarrow>
                (\<exists>a b. lower (s_title s) = a @ lower ''RUN'' @ b) \<or>
                (\<exists>a b. lower (s_content s) = a @ lower ''RUN'' @ b))"
    by (elim exE conjE)
  have eq: "out = \<lparr>out_query = ''RUN'', out_total_matches = 2,
          out_results = [make_result ''run'' (sample_sections ! 2),
                         make_result ''run'' (sample_sections ! 0)]\<rparr>"
    using out sample_search_uncapped by simp
  have tot: "out_total_matches out = 2" unfolding eq by simp
  have m: "\<forall>s\<in>set sample_sections.
              make_result (lower ''RUN'') s \<in> set (out_results out) \<longleftrightarrow>
                (\<exists>a b. lower (s_title s) = a @ lower ''RUN'' @ b) \<or>
                (\<exists>a b. lower (s_content s) = a @ lower ''RUN'' @ b)"
    using mem tot unfolding secs by simp
  have low: "lower ''RUN'' = ''run''" using sample_counts by (rule conjunct1)
  have in0: "sample_sections ! 0 \<in> set sample_sections"
    and in1: "sample_sections ! 1 \<in> set sample_sections"
    using sample_counts by blast+
  have c0: "\<exists>a b. lower (s_content (sample_sections ! 0)) = a @ ''run'' @ b"
    using sample_counts str_count_pos [of "lower (s_content (sample_sections ! 0))" "''run''"]
    by blast
  have t1: "\<not> (\<exists>a b. lower (s_title (sample_sections ! 1)) = a @ ''run'' @ b)"
    using sample_counts str_count_pos [of "lower (s_title (sample_sections ! 1))" "''run''"]
    by simp
  have c1: "\<not> (\<exists>a b. lower (s_content (sample_sections ! 1)) = a @ ''run'' @ b)"
    using sample_counts str_count_pos [of "lower (s_content (sample_sections ! 1))" "''run''"]
    by simp
  have 0: "make_result (lower ''RUN'') (sample_sections ! 0) \<in> set (out_results out)"
    using m [rule_format, OF in0] c0 unfolding low by blast
  have 1: "make_result (lower ''RUN'') (sample_sections ! 1) \<notin> set (out_results out)"
    using m [rule_format, OF in1] t1 c1 unfolding low by blast
  have run: "\<exists>out. search_rf_documentation sample_cache ''RUN'' 10 = Inr out \<and>
      out_total_matches out = 2 \<and>
      make_result (lower ''RUN'') (sample_sections ! 0) \<in> set (out_results out) \<and>
      make_result (lower ''RUN'') (sample_sections ! 1) \<notin> set (out_results out)"
    by (rule exI [of _ out]) (intro conjI out tot 0 1)
  note e = search_matches_substring [of sample_cache sample_index "[]" 10,
      THEN conjunct1, THEN mp, OF idx]
  then obtain out' where out': "search_rf_documentation sample_cache [] 10 = Inr out'"
    and all: "[] = ([] :: string) \<longrightarrow> out_total_matches out' = length (di_sections sample_index) \<and>
        (int (length (di_sections sample_index)) \<le> 10 \<longrightarrow>
           set (out_results out') = make_result [] ` set (di_sections sample_index))"
    by (elim exE conjE)
  have "out_total_matches out' = 3"
    using all unfolding secs by (simp add: sample_sections_def)
  with out' have empty: "\<exists>out. search_rf_documentation sample_cache [] 10 = Inr out \<and>
      out_total_matches out = 3" by blast
  show ?thesis by (intro conjI idx run empty)
qed


section \<open>Properties of the Keyword Lookup\<close>

lemma search_keywords_find:
  "search_keywords q lib kws =
     map_option (\<lambda>kv. found_entry (lib, fst kv, snd kv))
       (find (\<lambda>kv. normalize_name (fst kv) = q) kws)"
  by (induction kws) (simp_all add: found_entry_def)

lemma find_map_entry:
  "find (\<lambda>e. normalize_name (fst (snd e)) = q) (map (\<lambda>kv. (lib, fst kv, snd kv)) kws) =
     map_option (\<lambda>kv. (lib, fst kv, snd kv)) (find (\<lambda>kv. normalize_name (fst kv) = q) kws)"
  by (induction kws) simp_all

lemma find_append:
  "find P (xs @ ys) = (case find P xs of Some x \<Rightarrow> Some x | None \<Rightarrow> find P ys)"
  by (induction xs) simp_all

lemma search_libraries_find:
  "search_libraries q libs =
     map_option found_entry (find (\<lambda>e. normalize_name (fst (snd e)) = q) (keyword_entries libs))"
proof (induction libs)
  case Nil
  show ?case by (simp add: keyword_entries_def)
next
  case (Cons lib libs)
  have split: "keyword_entries (lib # libs) =
      map (\<lambda>kv. (fst lib, fst kv, snd kv)) (snd lib) @ keyword_entries libs"
    by (simp add: keyword_entries_def)
  show ?case
    unfolding split find_append find_map_entry
    using Cons.IH
    by (cases "find (\<lambda>kv. normalize_name (fst kv) = q) (snd lib)")
       (simp_all add: search_keywords_find)
qed

lemma first_match_find:
  "first_match keyword_name libs =
     (case find (\<lambda>e. normalize_name (fst (snd e)) = normalize_name keyword_name)
             (keyword_entries libs) of
        None \<Rightarrow> NotAvailable keyword_name
      | Some e \<Rightarrow> found_entry e)"
  by (simp add: first_match_def search_libraries_find split: option.splits)

lemma first_match_exact:
  "first_match keyword_name libs = Found k l a d u \<longrightarrow>
     normalize_name k = normalize_name keyword_name \<and>
     (\<exists>v. (l, k, v) \<in> set (keyword_entries libs))"
proof
  assume f: "first_match keyword_name libs = Found k l a d u"
  then obtain e where e: "find (\<lambda>e. normalize_name (fst (snd e)) = normalize_name keyword_name)
             (keyword_entries libs) = Some e" and fe: "found_entry e = Found k l a d u"
    unfolding first_match_find by (auto split: option.splits)
  from e have "normalize_name (fst (snd e)) = normalize_name keyword_name"
    and "e \<in> set (keyword_entries libs)"
    by (auto simp: find_Some_iff)
  moreover from fe have "fst (snd e) = k" "fst e = l" by (simp_all add: found_entry_def)
  ultimately have "normalize_name k = normalize_name keyword_name"
    and "(l, k, snd (snd e)) \<in> set (keyword_entries libs)"
    by (auto simp: prod_eq_iff [symmetric] intro: back_subst [of "\<lambda>x. x \<in> set (keyword_entries libs)"])
  then show "normalize_name k = normalize_name keyword_name \<and>
     (\<exists>v. (l, k, v) \<in> set (keyword_entries libs))" by blast
qed

lemma normalize_get_length:
  "normalize_name ''get_length'' = ''get length'' \<and>
   normalize_name ''Get-Length'' = ''get length'' \<and>
   normalize_name ''get length'' = ''get length'' \<and>
   normalize_name ''Get Length'' = ''get length''"
  by code_simp

lemma unscoped_lookup:
  "get_keyword_documentation index_data keyword_name None =
     first_match keyword_name (ki_libraries index_data)"
  by (simp add: get_keyword_documentation_def)

lemma scoped_lookup:
  "l \<noteq> [] \<longrightarrow>
     get_keyword_documentation index_data keyword_name (Some l) =
       (case map_of (ki_libraries index_data) l of
          None \<Rightarrow> LibraryNotFound l (map fst (ki_libraries index_data))
        | Some keywords \<Rightarrow> first_match keyword_name [(l, keywords)])"
  by (simp add: get_keyword_documentation_def Let_def)

lemma get_length_resolves:
  "find (\<lambda>e. normalize_name (fst (snd e)) = ''get length'') (keyword_entries libs) =
     Some (l, ''Get Length'', v) \<longrightarrow>
   list_all (\<lambda>q. first_match q libs = found_entry (l, ''Get Length'', v))
     [''get_length'', ''Get-Length'', ''get length'']"
  using normalize_get_length by (simp add: first_match_find)


lemma normalize_name_unfold:
  "normalize_name k = replace CHR ''-'' '' '' (replace CHR ''_'' '' '' (lower k))"
  by (rule normalize_name_def)

text \<open>
  Claim C4. The lookup lowers the name and replaces underscores and hyphens by spaces, on
  the query and on every stored key alike; it answers with the first stored keyword, in
  library order and then insertion order, whose normalized key equals the normalized
  query, and with no keyword otherwise, so a key that merely contains the query is no
  match; \<open>get_length\<close>, \<open>Get-Length\<close> and \<open>get length\<close> all resolve to the stored
  keyword \<open>Get Length\<close> when it is the first of that normal form.
\<close>

theorem keyword_lookup_exact_first:
  "get_keyword_documentation index_data keyword_name None =
     first_match keyword_name (ki_libraries index_data) \<and>
   (l \<noteq> [] \<longrightarrow>
     get_keyword_documentation index_data keyword_name (Some l) =
       (case map_of (ki_libraries index_data) l of
          None \<Rightarrow> LibraryNotFound l (map fst (ki_libraries index_data))
        | Some keywords \<Rightarrow> first_match keyword_name [(l, keywords)])) \<and>
   first_match keyword_name libs =
     (case find (\<lambda>e. normalize_name (fst (snd e)) = normalize_name keyword_name)
             (keyword_entries libs) of
        None \<Rightarrow> NotAvailable keyword_name
      | Some e \<Rightarrow> found_entry e) \<and>
   (first_match keyword_name libs = Found k lib a d u \<longrightarrow>
     normalize_name k = normalize_name keyword_name \<and>
     (\<exists>v. (lib, k, v) \<in> set (keyword_entries libs))) \<and>
   normalize_name keyword_name =
     replace CHR ''-'' '' '' (replace CHR ''_'' '' '' (lower keyword_name)) \<and>
   (normalize_name ''get_length'' = ''get length'' \<and>
    normalize_name ''Get-Length'' = ''get length'' \<and>
    normalize_name ''get length'' = ''get length'' \<and>
    normalize_name ''Get Length'' = ''get length'') \<and>
   (find (\<lambda>e. normalize_name (fst (snd e)) = ''get length'') (keyword_entries libs) =
      Some (lib', ''Get Length'', v) \<longrightarrow>
    list_all (\<lambda>q. first_match q libs = found_entry (lib', ''Get Length'', v))
      [''get_length'', ''Get-Length'', ''get length''])"
  by (intro conjI unscoped_lookup scoped_lookup first_match_find first_match_exact
      normalize_name_unfold normalize_get_length get_length_resolves)

lemma sample_first_entry:
  "find (\<lambda>e. normalize_name (fst (snd e)) = ''get length'') (keyword_entries sample_libraries) =
      Some (''BuiltIn'', ''Get Length'', sample_keyword ''BuiltIn'' ''Get Length'')"
  by code_simp

lemma sample_no_substring:
  "get_keyword_documentation sample_keywords_index ''Get'' None = NotAvailable ''Get''"
  by code_simp

lemma sample_found:
  "found_entry (''BuiltIn'', ''Get Length'', sample_keyword ''BuiltIn'' ''Get Length'') =
     Found ''Get Length'' ''BuiltIn'' ''item'' ''Returns the length.''
       ''https://robotframework.org/robotframework/7.4.1/libraries/BuiltIn.html#Get%20Length''"
  by code_simp

theorem keyword_lookup_exact_first_witness:
  "list_all
     (\<lambda>q. get_keyword_documentation sample_keywords_index q None =
            Found ''Get Length'' ''BuiltIn'' ''item'' ''Returns the length.''
              ''https://robotframework.org/robotframework/7.4.1/libraries/BuiltIn.html#Get%20Length'')
     [''get_length'', ''Get-Length'', ''get length''] \<and>
   get_keyword_documentation sample_keywords_index ''Get'' None = NotAvailable ''Get''"
proof -
  note t = keyword_lookup_exact_first [of _ _ _ sample_libraries _ _ _ _ _ "''BuiltIn''"
      "sample_keyword ''BuiltIn'' ''Get Length''"]
  have r: "list_all (\<lambda>q. first_match q sample_libraries =
      found_entry (''BuiltIn'', ''Get Length'', sample_keyword ''BuiltIn'' ''Get Length''))
      [''get_length'', ''Get-Length'', ''get length'']"
    using t [THEN conjunct2, THEN conjunct2, THEN conjunct2, THEN conjunct2, THEN conjunct2,
        THEN conjunct2, THEN mp, OF sample_first_entry] .
  have u: "get_keyword_documentation sample_keywords_index q None =
      first_match q sample_libraries" for q
    by (simp add: unscoped_lookup sample_keywords_index_def)
  show ?thesis
    using r sample_no_substring unfolding sample_found u by simp
qed


section \<open>Properties of the Embedded-Object Extractor\<close>

declare scan.simps [simp del]

lemma first_return_Some:
  "first_return st s = Some n \<longleftrightarrow>
     n < length s \<and> fst (foldl scan_step st (take (Suc n) s)) = 0 \<and>
     (\<forall>k<n. fst (foldl scan_step st (take (Suc k) s)) \<noteq> 0)"
proof (induction s arbitrary: st n)
  case Nil
  show ?case by simp
next
  case (Cons c cs)
  show ?case
  proof (cases "fst (scan_step st c) = 0")
    case True
    have "n = 0" if "\<forall>k<n. fst (foldl scan_step st (take (Suc k) (c # cs))) \<noteq> 0"
    proof (rule ccontr)
      assume "n \<noteq> 0"
      then have "0 < n" by simp
      with that have "fst (foldl scan_step st (take (Suc 0) (c # cs))) \<noteq> 0" by blast
      with True show False by simp
    qed
    with True show ?thesis by auto
  next
    case False
    show ?thesis
    proof (cases n)
      case 0
      with False show ?thesis by simp
    next
      case (Suc m)
      have "(\<forall>k<Suc m. fst (foldl scan_step st (take (Suc k) (c # cs))) \<noteq> 0) \<longleftrightarrow>
            (\<forall>k<m. fst (foldl scan_step (scan_step st c) (take (Suc k) cs)) \<noteq> 0)"
      proof
        assume a: "\<forall>k<Suc m. fst (foldl scan_step st (take (Suc k) (c # cs))) \<noteq> 0"
        show "\<forall>k<m. fst (foldl scan_step (scan_step st c) (take (Suc k) cs)) \<noteq> 0"
        proof (intro allI impI)
          fix k assume "k < m"
          then have "Suc k < Suc m" by simp
          with a have "fst (foldl scan_step st (take (Suc (Suc k)) (c # cs))) \<noteq> 0" by blast
          then show "fst (foldl scan_step (scan_step st c) (take (Suc k) cs)) \<noteq> 0" by simp
        qed
      next
        assume a: "\<forall>k<m. fst (foldl scan_step (scan_step st c) (take (Suc k) cs)) \<noteq> 0"
        show "\<forall>k<Suc m. fst (foldl scan_step st (take (Suc k) (c # cs))) \<noteq> 0"
        proof (intro allI impI)
          fix k assume k: "k < Suc m"
          show "fst (foldl scan_step st (take (Suc k) (c # cs))) \<noteq> 0"
          proof (cases k)
            case 0
            with False show ?thesis by simp
          next
            case (Suc j)
            with k a show ?thesis by simp
          qed
        qed
      qed
      with False Suc Cons.IH [of "scan_step st c" m] show ?thesis by auto
    qed
  qed
qed

lemma first_return_None:
  "first_return st s = None \<longleftrightarrow>
     (\<forall>k<length s. fst (foldl scan_step st (take (Suc k) s)) \<noteq> 0)"
proof
  assume n: "first_return st s = None"
  show "\<forall>k<length s. fst (foldl scan_step st (take (Suc k) s)) \<noteq> 0"
  proof (intro allI impI notI)
    fix k assume k: "k < length s" and z: "fst (foldl scan_step st (take (Suc k) s)) = 0"
    define P where "P j \<longleftrightarrow> fst (foldl scan_step st (take (Suc j) s)) = 0" for j
    have "P k" using z by (simp add: P_def)
    then have l: "P (LEAST j. P j)" and m: "\<forall>j<LEAST j. P j. \<not> P j"
      by (rule LeastI) (auto dest: not_less_Least)
    have "(LEAST j. P j) \<le> k" using \<open>P k\<close> by (rule Least_le)
    with k have "(LEAST j. P j) < length s" by simp
    with l m have "first_return st s = Some (LEAST j. P j)"
      unfolding first_return_Some P_def by blast
    with n show False by simp
  qed
next
  assume a: "\<forall>k<length s. fst (foldl scan_step st (take (Suc k) s)) \<noteq> 0"
  show "first_return st s = None"
  proof (cases "first_return st s")
    case None
    then show ?thesis .
  next
    case (Some n)
    then have "n < length s" "fst (foldl scan_step st (take (Suc n) s)) = 0"
      unfolding first_return_Some by blast+
    with a show ?thesis by blast
  qed
qed

lemma scan_first_return:
  "0 < depth \<Longrightarrow>
   scan html i depth in_string escape =
     map_option (\<lambda>n. i + n + 1) (first_return (depth, in_string, escape) (drop i html))"
proof (induction html i depth in_string escape rule: scan.induct)
  case (1 html i depth in_string escape)
  show ?case
  proof (cases "i < length html")
    case False
    then show ?thesis by (subst scan.simps) simp
  next
    case True
    then have d: "drop i html = html ! i # drop (Suc i) html"
      by (simp add: Cons_nth_drop_Suc)
    show ?thesis
      unfolding d
      apply (subst scan.simps)
      using True "1.prems" "1.IH"
      apply (simp add: option.map_comp comp_def)
      done
  qed
qed


lemma concat_push_piece: "concat (fst (push_piece x m)) = x # concat (fst m)"
  by (cases "fst m") (simp_all add: push_piece_def)

lemma snd_push_piece: "snd (push_piece x m) = snd m"
  by (cases "fst m") (simp_all add: push_piece_def)

lemma concat_new_piece: "concat (fst (new_piece p m)) = p @ concat (fst m)"
  by (simp add: new_piece_def)

lemma snd_new_piece: "snd (new_piece p m) = snd m"
  by (simp add: new_piece_def)

lemmas piece_simps = concat_push_piece snd_push_piece concat_new_piece snd_new_piece

lemma re_match_concat:
  "re_match pat s = Some m \<Longrightarrow> s = concat (fst m) @ snd m"
proof (induction pat s arbitrary: m rule: re_match.induct)
  case (1 s)
  then show ?case by auto
next
  case (2 c r)
  then show ?case by simp
next
  case (3 c r x xs)
  from "3.prems" obtain m' where m': "x = c" "re_match r xs = Some m'" "m = new_piece [x] m'"
    by (auto split: if_splits)
  from "3.IH" [OF m'(1) m'(2)] show ?case unfolding m'(3) piece_simps by simp
next
  case (4 k r)
  from "4.prems" obtain m' where m': "re_match r [] = Some m'" "m = new_piece [] m'"
    by auto
  from "4.IH" [OF m'(1)] show ?case unfolding m'(2) piece_simps append_Nil .
next
  case (5 k r x xs)
  show ?case
  proof (cases "in_class k x")
    case True
    show ?thesis
    proof (cases "re_match (Star k # r) xs")
      case None
      with True "5.prems" obtain m' where m': "re_match r (x # xs) = Some m'"
        "m = new_piece [] m'" by auto
      from "5.IH"(2) [OF True None m'(1)] show ?thesis
        unfolding m'(2) piece_simps append_Nil .
    next
      case (Some m')
      with True "5.prems" have m: "m = push_piece x m'" by simp
      from "5.IH"(1) [OF True Some] show ?thesis unfolding m piece_simps by simp
    qed
  next
    case False
    with "5.prems" obtain m' where m': "re_match r (x # xs) = Some m'"
      "m = new_piece [] m'" by auto
    from "5.IH"(3) [OF False m'(1)] show ?thesis
      unfolding m'(2) piece_simps append_Nil .
  qed
next
  case (6 k r)
  then show ?case by simp
next
  case (7 k r x xs)
  from "7.prems" obtain m' where m': "in_class k x" "re_match (Star k # r) xs = Some m'"
    "m = push_piece x m'" by (auto split: if_splits)
  from "7.IH" [OF m'(1) m'(2)] show ?case unfolding m'(3) piece_simps by simp
qed

lemma ends_Cons: "\<exists>t. ys = t @ [c] \<Longrightarrow> \<exists>t. x # ys = t @ [c]"
  by (metis append_Cons)

lemma re_match_last_lit:
  "re_match pat s = Some m \<Longrightarrow> pat \<noteq> [] \<Longrightarrow> last pat = Lit c \<Longrightarrow>
   \<exists>t. concat (fst m) = t @ [c]"
proof (induction pat s arbitrary: m rule: re_match.induct)
  case (1 s)
  then show ?case by simp
next
  case (2 c' r)
  then show ?case by simp
next
  case (3 c' r x xs)
  from "3.prems"(1) obtain m' where m': "x = c'" "re_match r xs = Some m'" "m = new_piece [x] m'"
    by (auto split: if_splits)
  show ?case
  proof (cases "r = []")
    case True
    with m'(2) have e: "m' = ([], xs)" by simp
    have "concat (fst m) = [x]" unfolding m'(3) e by (simp add: new_piece_def)
    moreover have "x = c" using m'(1) "3.prems"(3) True by simp
    ultimately have "concat (fst m) = [] @ [c]" by simp
    then show ?thesis by (rule exI)
  next
    case False
    with "3.prems" have "last r = Lit c" by simp
    with "3.IH" [OF m'(1) m'(2) False] have "\<exists>t. concat (fst m') = t @ [c]" by simp
    then show ?thesis unfolding m'(3) concat_new_piece by (simp add: ends_Cons)
  qed
next
  case (4 k r)
  from "4.prems" have r: "r \<noteq> []" "last r = Lit c" by (auto split: if_splits)
  from "4.prems"(1) obtain m' where m': "re_match r [] = Some m'" "m = new_piece [] m'"
    by auto
  from "4.IH" [OF m'(1) r] show ?case unfolding m'(2) concat_new_piece by simp
next
  case (5 k r x xs)
  from "5.prems" have r: "r \<noteq> []" "last r = Lit c" by (auto split: if_splits)
  show ?case
  proof (cases "in_class k x")
    case True
    show ?thesis
    proof (cases "re_match (Star k # r) xs")
      case None
      with True "5.prems"(1) obtain m' where m': "re_match r (x # xs) = Some m'"
        "m = new_piece [] m'" by auto
      from "5.IH"(2) [OF True None m'(1) r] show ?thesis
        unfolding m'(2) concat_new_piece by simp
    next
      case (Some m')
      with True "5.prems"(1) have m: "m = push_piece x m'" by simp
      from "5.IH"(1) [OF True Some] "5.prems" have "\<exists>t. concat (fst m') = t @ [c]" by simp
      then show ?thesis unfolding m concat_push_piece by (rule ends_Cons)
    qed
  next
    case False
    with "5.prems"(1) obtain m' where m': "re_match r (x # xs) = Some m'"
      "m = new_piece [] m'" by auto
    from "5.IH"(3) [OF False m'(1) r] show ?thesis
      unfolding m'(2) concat_new_piece by simp
  qed
next
  case (6 k r)
  then show ?case by simp
next
  case (7 k r x xs)
  from "7.prems"(1) obtain m' where m': "in_class k x" "re_match (Star k # r) xs = Some m'"
    "m = push_piece x m'" by (auto split: if_splits)
  from "7.prems" have "Star k # r \<noteq> []" "last (Star k # r) = Lit c"
    by (auto split: if_splits)
  from "7.IH" [OF m'(1) m'(2) this] show ?case
    unfolding m'(3) concat_push_piece by (rule ends_Cons)
qed

lemma re_search_from_match:
  "re_search_from pat i s = Some (a, b) \<Longrightarrow>
   \<exists>k m. k \<le> length s \<and> a = i + k \<and> re_match pat (drop k s) = Some m \<and>
         b = a + length (concat (fst m))"
proof (induction s arbitrary: i)
  case Nil
  then show ?case by (auto split: option.splits)
next
  case (Cons x xs)
  show ?case
  proof (cases "re_match pat (x # xs)")
    case (Some m)
    with Cons.prems have "a = i + 0" "re_match pat (drop 0 (x # xs)) = Some m"
      "b = a + length (concat (fst m))" by auto
    then show ?thesis by blast
  next
    case None
    with Cons.prems have "re_search_from pat (Suc i) xs = Some (a, b)" by simp
    then obtain k m where "k \<le> length xs" "a = Suc i + k" "re_match pat (drop k xs) = Some m"
      "b = a + length (concat (fst m))" using Cons.IH by blast
    then have "Suc k \<le> length (x # xs)" "a = i + Suc k"
      "re_match pat (drop (Suc k) (x # xs)) = Some m" "b = a + length (concat (fst m))"
      by auto
    then show ?thesis by blast
  qed
qed

lemma re_search_from_None:
  "re_search_from pat i s = None \<longleftrightarrow> (\<forall>k\<le>length s. re_match pat (drop k s) = None)"
proof (induction s arbitrary: i)
  case Nil
  show ?case by (auto split: option.splits)
next
  case (Cons x xs)
  have "(\<forall>k\<le>length (x # xs). re_match pat (drop k (x # xs)) = None) \<longleftrightarrow>
        re_match pat (x # xs) = None \<and> (\<forall>k\<le>length xs. re_match pat (drop k xs) = None)"
  proof
    assume a: "\<forall>k\<le>length (x # xs). re_match pat (drop k (x # xs)) = None"
    have "re_match pat (drop 0 (x # xs)) = None" using a by blast
    moreover have "re_match pat (drop k xs) = None" if "k \<le> length xs" for k
      using a [rule_format, of "Suc k"] that by simp
    ultimately show "re_match pat (x # xs) = None \<and>
        (\<forall>k\<le>length xs. re_match pat (drop k xs) = None)" by simp
  next
    assume a: "re_match pat (x # xs) = None \<and> (\<forall>k\<le>length xs. re_match pat (drop k xs) = None)"
    show "\<forall>k\<le>length (x # xs). re_match pat (drop k (x # xs)) = None"
    proof (intro allI impI)
      fix k assume "k \<le> length (x # xs)"
      then show "re_match pat (drop k (x # xs)) = None"
        using a by (cases k) auto
    qed
  qed
  then show ?case using Cons.IH [of "Suc i"] by (simp split: option.splits)
qed

lemma marker_brace:
  assumes "re_search libdoc_marker html = Some (a, b)"
  shows "0 < b \<and> b \<le> length html \<and> html ! (b - 1) = CHR ''{''"
proof -
  obtain k m where k: "k \<le> length html" "a = k"
    "re_match libdoc_marker (drop k html) = Some m" "b = a + length (concat (fst m))"
    using re_search_from_match [of libdoc_marker 0 html a b] assms
    by (auto simp: re_search_def)
  have c: "drop k html = concat (fst m) @ snd m" using k(3) by (rule re_match_concat)
  obtain t where t: "concat (fst m) = t @ [CHR ''{'']"
    using re_match_last_lit [OF k(3), of "CHR ''{''"] by (auto simp: libdoc_marker_def)
  have d: "drop k html = t @ CHR ''{'' # snd m" using c t by simp
  have b: "b = k + length t + 1" using k t by simp
  have "length (drop k html) = length t + 1 + length (snd m)" unfolding d by simp
  then have le: "k + length t + 1 \<le> length html" by simp
  have "html ! (k + length t) = drop k html ! length t"
    using k(1) by simp
  also have "\<dots> = CHR ''{''" unfolding d by simp
  finally show ?thesis using b le by simp
qed






lemma scan_start:
  assumes p: "p < length html" and c: "html ! p = CHR ''{''"
  shows "scan html p 0 False False =
           map_option (\<lambda>n. p + n + 1) (first_return (0, False, False) (drop p html))"
proof -
  have d: "drop p html = CHR ''{'' # drop (Suc p) html"
    using p c by (simp add: Cons_nth_drop_Suc [symmetric])
  have "scan html p 0 False False = scan html (Suc p) 1 False False"
    using p c by (subst scan.simps) simp
  also have "\<dots> = map_option (\<lambda>n. Suc p + n + 1)
                     (first_return (1, False, False) (drop (Suc p) html))"
    by (rule scan_first_return) simp
  also have "\<dots> = map_option (\<lambda>n. p + n + 1)
                     (first_return (0, False, False) (drop p html))"
    unfolding d by (simp add: option.map_comp comp_def)
  finally show ?thesis .
qed

lemma extract_found:
  assumes m: "re_search libdoc_marker html = Some (a, b)"
  shows "extract_libdoc_json html =
           (case first_return (0, False, False) (drop (b - 1) html) of
              None \<Rightarrow> Inl Unbalanced
            | Some n \<Rightarrow> Inr (take (Suc n) (drop (b - 1) html)))"
proof -
  have "0 < b \<and> b \<le> length html \<and> html ! (b - 1) = CHR ''{''"
    by (rule marker_brace [OF m])
  then have b: "b - 1 < length html" "html ! (b - 1) = CHR ''{''"
    by (arith, blast)
  have sc: "scan html (b - 1) 0 False False =
      map_option (\<lambda>n. (b - 1) + n + 1) (first_return (0, False, False) (drop (b - 1) html))"
    by (rule scan_start [OF b])
  show ?thesis
  proof (cases "first_return (0, False, False) (drop (b - 1) html)")
    case None
    with sc show ?thesis by (simp add: extract_libdoc_json_def m Let_def)
  next
    case (Some n)
    with sc show ?thesis by (simp add: extract_libdoc_json_def m Let_def slice_def)
  qed
qed

lemma depth_after_first:
  "first_return (0, False, False) s = Some n \<longleftrightarrow>
     n < length s \<and> depth_after s (Suc n) = 0 \<and> (\<forall>k<n. depth_after s (Suc k) \<noteq> 0)"
  unfolding depth_after_def by (rule first_return_Some)

lemma depth_after_never:
  "first_return (0, False, False) s = None \<longleftrightarrow>
     (\<forall>k<length s. depth_after s (Suc k) \<noteq> 0)"
  unfolding depth_after_def by (rule first_return_None)












section \<open>Failure outcomes of the extraction\<close>

lemma extract_not_found:
  "extract_libdoc_json html = Inl NotFound \<longleftrightarrow> re_search libdoc_marker html = None"
proof (cases "re_search libdoc_marker html")
  case None
  then show ?thesis by (simp add: extract_libdoc_json_def)
next
  case (Some ab)
  obtain a b where ab: "ab = (a, b)" by (cases ab)
  show ?thesis
    using Some unfolding ab extract_found [OF Some [unfolded ab]]
    by (simp split: option.splits)
qed

lemma extract_unbalanced:
  "extract_libdoc_json html = Inl Unbalanced \<longleftrightarrow>
     (\<exists>a b. re_search libdoc_marker html = Some (a, b) \<and>
            (\<forall>k<length (drop (b - 1) html). depth_after (drop (b - 1) html) (Suc k) \<noteq> 0))"
proof (cases "re_search libdoc_marker html")
  case None
  then show ?thesis by (simp add: extract_libdoc_json_def)
next
  case (Some ab)
  obtain a b where ab: "ab = (a, b)" by (cases ab)
  have m: "re_search libdoc_marker html = Some (a, b)" using Some ab by simp
  have "extract_libdoc_json html = Inl Unbalanced \<longleftrightarrow>
          first_return (0, False, False) (drop (b - 1) html) = None"
    unfolding extract_found [OF m] by (simp split: option.splits)
  then show ?thesis unfolding depth_after_never using m by simp
qed

lemma extract_cases:
  "extract_libdoc_json html = Inl NotFound \<or> extract_libdoc_json html = Inl Unbalanced \<or>
   (\<exists>js. extract_libdoc_json html = Inr js)"
  by (simp add: extract_libdoc_json_def Let_def split: option.splits)

lemma extract_success:
  "extract_libdoc_json html = Inr js \<longrightarrow>
     (\<exists>a b n. re_search libdoc_marker html = Some (a, b) \<and>
              js = take (Suc n) (drop (b - 1) html) \<and>
              depth_after (drop (b - 1) html) (Suc n) = 0 \<and>
              (\<forall>k<n. depth_after (drop (b - 1) html) (Suc k) \<noteq> 0))"
proof
  assume e: "extract_libdoc_json html = Inr js"
  then obtain a b where m: "re_search libdoc_marker html = Some (a, b)"
    by (cases "re_search libdoc_marker html") (auto simp: extract_libdoc_json_def)
  from e obtain n where n: "first_return (0, False, False) (drop (b - 1) html) = Some n"
    "js = take (Suc n) (drop (b - 1) html)"
    unfolding extract_found [OF m] by (auto split: option.splits)
  from n(1) have "depth_after (drop (b - 1) html) (Suc n) = 0"
    "\<forall>k<n. depth_after (drop (b - 1) html) (Suc k) \<noteq> 0"
    unfolding depth_after_first by blast+
  with m n(2) show "\<exists>a b n. re_search libdoc_marker html = Some (a, b) \<and>
              js = take (Suc n) (drop (b - 1) html) \<and>
              depth_after (drop (b - 1) html) (Suc n) = 0 \<and>
              (\<forall>k<n. depth_after (drop (b - 1) html) (Suc k) \<noteq> 0)" by blast
qed

lemma parse_not_found:
  "parse_library_keywords json_loads name (Some html) = Inl NotFound \<longleftrightarrow>
     re_search libdoc_marker html = None"
  unfolding extract_not_found [symmetric]
  by (auto simp: parse_library_keywords_def split: sum.splits option.splits)

lemma parse_unbalanced:
  "parse_library_keywords json_loads name (Some html) = Inl Unbalanced \<longleftrightarrow>
     (\<exists>a b. re_search libdoc_marker html = Some (a, b) \<and>
            (\<forall>k<length (drop (b - 1) html). depth_after (drop (b - 1) html) (Suc k) \<noteq> 0))"
  unfolding extract_unbalanced [symmetric]
  by (auto simp: parse_library_keywords_def split: sum.splits option.splits)

lemma parse_malformed:
  "parse_library_keywords json_loads name (Some html) = Inl MalformedPayload \<longleftrightarrow>
     (\<exists>js. extract_libdoc_json html = Inr js \<and> json_loads js = None)"
  using extract_cases [of html]
  by (auto simp: parse_library_keywords_def split: sum.splits option.splits)

lemma parse_success:
  "parse_library_keywords json_loads name (Some html) = Inr kws \<longrightarrow>
     (\<exists>js data. extract_libdoc_json html = Inr js \<and> json_loads js = Some data \<and>
                normalize_keywords name data = Some kws)"
  by (auto simp: parse_library_keywords_def split: sum.splits option.splits)

lemma search_none:
  "re_search libdoc_marker html = None \<longleftrightarrow>
     (\<forall>k\<le>length html. re_match libdoc_marker (drop k html) = None)"
  unfolding re_search_def by (rule re_search_from_None)

lemma errors_distinct:
  "NotFound \<noteq> Unbalanced \<and> NotFound \<noteq> MalformedPayload \<and> Unbalanced \<noteq> MalformedPayload"
  by simp

text \<open>
  Claim C8. The three failures are told apart exactly: the result is \<open>NotFound\<close> when
  and only when the marker matches at no position of the input; \<open>Unbalanced\<close> when and
  only when the marker is found and the depth never returns to 0 before the input ends;
  \<open>MalformedPayload\<close> when and only when a balanced substring was extracted and
  \<open>json.loads\<close> rejects it. The three errors are distinct values, and a success comes
  with an extracted substring that \<open>json.loads\<close> accepts.
\<close>

theorem extractor_failure_outcomes:
  "(parse_library_keywords json_loads name (Some html) = Inl NotFound \<longleftrightarrow>
      re_search libdoc_marker html = None) \<and>
   (re_search libdoc_marker html = None \<longleftrightarrow>
      (\<forall>k\<le>length html. re_match libdoc_marker (drop k html) = None)) \<and>
   (parse_library_keywords json_loads name (Some html) = Inl Unbalanced \<longleftrightarrow>
      (\<exists>a b. re_search libdoc_marker html = Some (a, b) \<and>
             (\<forall>k<length (drop (b - 1) html).
                depth_after (drop (b - 1) html) (Suc k) \<noteq> 0))) \<and>
   (parse_library_keywords json_loads name (Some html) = Inl MalformedPayload \<longleftrightarrow>
      (\<exists>js. extract_libdoc_json html = Inr js \<and> json_loads js = None)) \<and>
   (extract_libdoc_json html = Inr js \<longrightarrow>
      (\<exists>a b n. re_search libdoc_marker html = Some (a, b) \<and>
               js = take (Suc n) (drop (b - 1) html) \<and>
               depth_after (drop (b - 1) html) (Suc n) = 0 \<and>
               (\<forall>k<n. depth_after (drop (b - 1) html) (Suc k) \<noteq> 0))) \<and>
   (parse_library_keywords json_loads name (Some html) = Inr kws \<longrightarrow>
      (\<exists>js data. extract_libdoc_json html = Inr js \<and> json_loads js = Some data \<and>
                 normalize_keywords name data = Some kws)) \<and>
   (NotFound \<noteq> Unbalanced \<and> NotFound \<noteq> MalformedPayload \<and> Unbalanced \<noteq> MalformedPayload)"
  by (intro conjI parse_not_found search_none parse_unbalanced parse_malformed extract_success
      parse_success errors_distinct)


lemma list_all_upt: "list_all P [0..<n] \<longleftrightarrow> (\<forall>k<n. P k)"
  by (auto simp: list_all_iff)

lemma sample_no_marker: "re_search libdoc_marker ''<p>no keywords</p>'' = None"
  by code_simp

lemma sample_unclosed:
  \<open>re_search libdoc_marker ''libdoc = {"a":{"}":1}'' = Some (0, 10) \<and>
   list_all (\<lambda>k. depth_after (drop (10 - 1) ''libdoc = {"a":{"}":1}'') (Suc k) \<noteq> 0)
     [0..<length (drop (10 - 1) ''libdoc = {"a":{"}":1}'')]\<close>
  by code_simp

lemma sample_not_json: "extract_libdoc_json ''libdoc = {oops}'' = Inr ''{oops}''"
  by code_simp

theorem extractor_failure_outcomes_witness:
  \<open>parse_library_keywords (\<lambda>s. None) ''BuiltIn'' (Some ''<p>no keywords</p>'') = Inl NotFound \<and>
   parse_library_keywords (\<lambda>s. None) ''BuiltIn'' (Some ''libdoc = {"a":{"}":1}'') =
     Inl Unbalanced \<and>
   parse_library_keywords (\<lambda>s. None) ''BuiltIn'' (Some ''libdoc = {oops}'') =
     Inl MalformedPayload\<close>
proof -
  let ?loads = "\<lambda>s::string. None :: json option"
  have 1: "parse_library_keywords ?loads ''BuiltIn'' (Some ''<p>no keywords</p>'') = Inl NotFound"
    using extractor_failure_outcomes [of ?loads "''BuiltIn''" "''<p>no keywords</p>''",
        THEN conjunct1, THEN iffD2, OF sample_no_marker] .
  let ?u = \<open>''libdoc = {"a":{"}":1}''\<close>
  have "\<forall>k<length (drop (10 - 1) ?u). depth_after (drop (10 - 1) ?u) (Suc k) \<noteq> 0"
    by (rule sample_unclosed [THEN conjunct2, unfolded list_all_upt])
  with sample_unclosed [THEN conjunct1]
  have "\<exists>a b. re_search libdoc_marker ?u = Some (a, b) \<and>
          (\<forall>k<length (drop (b - 1) ?u). depth_after (drop (b - 1) ?u) (Suc k) \<noteq> 0)"
    by blast
  then have 2: "parse_library_keywords ?loads ''BuiltIn'' (Some ?u) = Inl Unbalanced"
    using extractor_failure_outcomes [of ?loads "''BuiltIn''" ?u,
        THEN conjunct2, THEN conjunct2, THEN conjunct1, THEN iffD2] by blast
  have "\<exists>js. extract_libdoc_json ''libdoc = {oops}'' = Inr js \<and> ?loads js = None"
    using sample_not_json by simp
  then have 3: "parse_library_keywords ?loads ''BuiltIn'' (Some ''libdoc = {oops}'') =
      Inl MalformedPayload"
    using extractor_failure_outcomes [of ?loads "''BuiltIn''" "''libdoc = {oops}''",
        THEN conjunct2, THEN conjunct2, THEN conjunct2, THEN conjunct1, THEN iffD2] by blast
  show ?thesis by (intro conjI 1 2 3)
qed


section \<open>Properties of the Keyword Normalizer\<close>












lemma replace_append: "replace c new (a @ b) = replace c new a @ replace c new b"
  by (simp add: replace_def)





















section \<open>Properties of the Documentation Index\<close>

lemma dict_set_new: "k \<notin> fst ` set d \<Longrightarrow> dict_set k v d = d @ [(k, v)]"
  by (induction d) auto

lemma file_after_other:
  "m \<noteq> n \<Longrightarrow> file_after net force (fs(Library n := v)) m = file_after net force fs m"
  by (auto simp: file_after_def split: option.splits)

lemma file_after_cong:
  "fs (Library n) = fs' (Library n) \<Longrightarrow> file_after net force fs n = file_after net force fs' n"
  by (auto simp: file_after_def split: option.splits)

lemma outcome_other:
  "m \<noteq> n \<Longrightarrow>
   library_outcome json_loads net force (fs(Library n := v)) m =
     library_outcome json_loads net force fs m"
  by (simp add: library_outcome_def file_after_other)

lemma outcome_cong:
  "fs (Library n) = fs' (Library n) \<Longrightarrow>
   library_outcome json_loads net force fs n = library_outcome json_loads net force fs' n"
  unfolding library_outcome_def by (simp only: file_after_cong [of fs n fs'])

lemma fetch_library_files:
  "files (fetch_library json_loads net force st n) =
     (files st)(Library n := file_after net force (files st) n)"
  by (auto simp: fetch_library_def download_file_def file_after_def Let_def
      split: option.splits sum.splits)

lemma fetch_library_libraries:
  "n \<notin> fst ` set (libraries st) \<Longrightarrow>
   libraries (fetch_library json_loads net force st n) =
     libraries st @
       (if file_after net force (files st) n \<noteq> None
        then [(n, library_summary (library_outcome json_loads net force (files st) n))]
        else [])"
  by (auto simp: fetch_library_def download_file_def file_after_def Let_def library_summary_def
      library_outcome_def dict_set_new split: option.splits sum.splits)

lemma fetch_library_all_keywords:
  "n \<notin> fst ` set (all_keywords st) \<Longrightarrow>
   all_keywords (fetch_library json_loads net force st n) =
     all_keywords st @
       map (Pair n) (parsed_keywords (library_outcome json_loads net force (files st) n))"
  by (auto simp: fetch_library_def download_file_def file_after_def Let_def parsed_keywords_def
      library_outcome_def dict_set_new parse_library_keywords_def
      split: option.splits sum.splits)

lemma fetch_library_total:
  "total_keywords (fetch_library json_loads net force st n) =
     total_keywords st +
       lr_total_keywords (library_summary (library_outcome json_loads net force (files st) n))"
  by (auto simp: fetch_library_def download_file_def file_after_def Let_def library_summary_def
      library_outcome_def parse_library_keywords_def split: option.splits sum.splits)

lemma fetch_libraries_Cons:
  "fetch_libraries json_loads net force st (n # names) =
     fetch_libraries json_loads net force (fetch_library json_loads net force st n) names"
  by (simp add: fetch_libraries_def)

lemma fetch_libraries_state:
  assumes "distinct names"
    and "set names \<inter> fst ` set (libraries st) = {}"
    and "set names \<inter> fst ` set (all_keywords st) = {}"
  shows "libraries (fetch_libraries json_loads net force st names) =
           libraries st @
             map (\<lambda>n. (n, library_summary (library_outcome json_loads net force (files st) n)))
               (filter (\<lambda>n. file_after net force (files st) n \<noteq> None) names) \<and>
         all_keywords (fetch_libraries json_loads net force st names) =
           all_keywords st @
             concat (map (\<lambda>n. map (Pair n)
               (parsed_keywords (library_outcome json_loads net force (files st) n))) names) \<and>
         total_keywords (fetch_libraries json_loads net force st names) =
           total_keywords st +
             sum_list (map (\<lambda>n. lr_total_keywords
               (library_summary (library_outcome json_loads net force (files st) n))) names)"
  using assms
proof (induction names arbitrary: st)
  case Nil
  show ?case by (simp add: fetch_libraries_def)
next
  case (Cons n names)
  let ?st1 = "fetch_library json_loads net force st n"
  let ?out = "library_outcome json_loads net force (files st)"
  let ?out1 = "library_outcome json_loads net force (files ?st1)"
  have n1: "n \<notin> fst ` set (libraries st)" and n2: "n \<notin> fst ` set (all_keywords st)"
    and nn: "n \<notin> set names" and d: "distinct names"
    using Cons.prems by auto
  have l1: "libraries ?st1 = libraries st @
       (if file_after net force (files st) n \<noteq> None
        then [(n, library_summary (?out n))] else [])"
    by (rule fetch_library_libraries [OF n1])
  have a1: "all_keywords ?st1 = all_keywords st @ map (Pair n) (parsed_keywords (?out n))"
    by (rule fetch_library_all_keywords [OF n2])
  have t1: "total_keywords ?st1 =
      total_keywords st + lr_total_keywords (library_summary (?out n))"
    by (rule fetch_library_total)
  have same_file: "file_after net force (files ?st1) m = file_after net force (files st) m"
    if "m \<in> set names" for m
  proof -
    from that nn have "m \<noteq> n" by auto
    then show ?thesis unfolding fetch_library_files by (rule file_after_other)
  qed
  have same_out: "?out1 m = ?out m" if "m \<in> set names" for m
  proof -
    from that nn have "m \<noteq> n" by auto
    then show ?thesis unfolding fetch_library_files by (rule outcome_other)
  qed
  have k1: "set names \<inter> fst ` set (libraries ?st1) = {}"
    using Cons.prems nn unfolding l1 by auto
  have k2: "set names \<inter> fst ` set (all_keywords ?st1) = {}"
    using Cons.prems nn unfolding a1 by auto
  note ih = Cons.IH [OF d k1 k2]
  have f: "filter (\<lambda>m. file_after net force (files ?st1) m \<noteq> None) names =
           filter (\<lambda>m. file_after net force (files st) m \<noteq> None) names"
    by (rule filter_cong) (simp_all add: same_file)
  have m1: "map (\<lambda>m. (m, library_summary (?out1 m)))
              (filter (\<lambda>m. file_after net force (files st) m \<noteq> None) names) =
            map (\<lambda>m. (m, library_summary (?out m)))
              (filter (\<lambda>m. file_after net force (files st) m \<noteq> None) names)"
    by (rule map_cong) (simp_all add: same_out)
  have m2: "map (\<lambda>m. map (Pair m) (parsed_keywords (?out1 m))) names =
            map (\<lambda>m. map (Pair m) (parsed_keywords (?out m))) names"
    by (rule map_cong) (simp_all add: same_out)
  have m3: "map (\<lambda>m. lr_total_keywords (library_summary (?out1 m))) names =
            map (\<lambda>m. lr_total_keywords (library_summary (?out m))) names"
    by (rule map_cong) (simp_all add: same_out)
  show ?case
    unfolding fetch_libraries_Cons
    using ih unfolding f m1 m2 m3 l1 a1 t1
    by simp
qed

lemma fetch_documentation_loop:
  "\<exists>F D. (\<forall>n. F (Library n) = cache_files c (Library n)) \<and>
     r_libraries (fst (fetch_documentation json_loads tokenize net names force c)) =
       libraries (fetch_libraries json_loads net force
         \<lparr>files = F, files_downloaded = D, libraries = [], all_keywords = [],
          total_keywords = 0\<rparr> names) \<and>
     r_keywords_index (fst (fetch_documentation json_loads tokenize net names force c)) =
       (let st = fetch_libraries json_loads net force
         \<lparr>files = F, files_downloaded = D, libraries = [], all_keywords = [],
          total_keywords = 0\<rparr> names
        in if all_keywords st \<noteq> []
           then Some \<lparr>kir_total_libraries = length (all_keywords st),
                      kir_total_keywords = total_keywords st\<rparr>
           else None) \<and>
     KEYWORDS_INDEX (snd (fetch_documentation json_loads tokenize net names force c)) =
       (let st = fetch_libraries json_loads net force
         \<lparr>files = F, files_downloaded = D, libraries = [], all_keywords = [],
          total_keywords = 0\<rparr> names
        in if all_keywords st \<noteq> []
           then Some \<lparr>ki_version = RF_VERSION,
                      ki_total_libraries = length (all_keywords st),
                      ki_total_keywords = total_keywords st,
                      ki_libraries = all_keywords st\<rparr>
           else KEYWORDS_INDEX c)"
proof -
  define F where "F =
     (if force \<or> cache_files c UserGuide = None
      then snd (download_file net UserGuide (cache_files c)) else cache_files c)"
  define D where "D =
     (if force \<or> cache_files c UserGuide = None
      then (if fst (download_file net UserGuide (cache_files c))
            then [''RobotFrameworkUserGuide.html''] else [])
      else [])"
  have F: "\<forall>n. F (Library n) = cache_files c (Library n)"
    by (simp add: F_def download_file_def split: option.splits)
  have k: "KEYWORDS_INDEX (snd (parse_documentation tokenize x)) = KEYWORDS_INDEX x"
          "cache_files (snd (parse_documentation tokenize x)) = cache_files x" for x
    by (simp_all add: parse_documentation_def Let_def split: option.splits)
  show ?thesis
    apply (rule exI [of _ F], rule exI [of _ D])
    apply (rule conjI [OF F])
    apply (simp add: fetch_documentation_def Let_def split_def F_def D_def k)
    done
qed

lemma fetch_success:
  "r_success (fst (fetch_documentation json_loads tokenize net names force c)) =
     ug_success (r_user_guide (fst (fetch_documentation json_loads tokenize net names force c))) \<and>
   r_success (fst (fetch_documentation json_loads tokenize net names force c)) =
     (if force \<or> cache_files c UserGuide = None then net UserGuide \<noteq> None else True)"
  by (simp add: fetch_documentation_def Let_def split_def download_file_def
      split: option.splits)


lemma map_of_entries:
  "map_of (map (\<lambda>n. (n, f n)) (filter P names)) n =
     (if n \<in> set names \<and> P n then Some (f n) else None)"
  by (induction names) auto

lemma refresh_libraries:
  assumes d: "distinct names"
  shows "r_libraries (fst (fetch_documentation json_loads tokenize net names force c)) =
       map (\<lambda>n. (n, library_summary (library_outcome json_loads net force (cache_files c) n)))
         (filter (\<lambda>n. file_after net force (cache_files c) n \<noteq> None) names)"
    and "r_keywords_index (fst (fetch_documentation json_loads tokenize net names force c)) =
       (if concat (map (\<lambda>n. map (Pair n)
             (parsed_keywords (library_outcome json_loads net force (cache_files c) n))) names) \<noteq> []
        then Some \<lparr>kir_total_libraries = length (concat (map (\<lambda>n. map (Pair n)
                      (parsed_keywords (library_outcome json_loads net force (cache_files c) n)))
                      names)),
                   kir_total_keywords = sum_list (map (\<lambda>n. lr_total_keywords
                      (library_summary (library_outcome json_loads net force (cache_files c) n)))
                      names)\<rparr>
        else None)"
    and "KEYWORDS_INDEX (snd (fetch_documentation json_loads tokenize net names force c)) =
       (if concat (map (\<lambda>n. map (Pair n)
             (parsed_keywords (library_outcome json_loads net force (cache_files c) n))) names) \<noteq> []
        then Some \<lparr>ki_version = RF_VERSION,
                   ki_total_libraries = length (concat (map (\<lambda>n. map (Pair n)
                      (parsed_keywords (library_outcome json_loads net force (cache_files c) n)))
                      names)),
                   ki_total_keywords = sum_list (map (\<lambda>n. lr_total_keywords
                      (library_summary (library_outcome json_loads net force (cache_files c) n)))
                      names),
                   ki_libraries = concat (map (\<lambda>n. map (Pair n)
                      (parsed_keywords (library_outcome json_loads net force (cache_files c) n)))
                      names)\<rparr>
        else KEYWORDS_INDEX c)"
proof -
  obtain F D where F: "\<forall>n. F (Library n) = cache_files c (Library n)"
    and l: "r_libraries (fst (fetch_documentation json_loads tokenize net names force c)) =
       libraries (fetch_libraries json_loads net force
         \<lparr>files = F, files_downloaded = D, libraries = [], all_keywords = [],
          total_keywords = 0\<rparr> names)"
    and k: "r_keywords_index (fst (fetch_documentation json_loads tokenize net names force c)) =
       (let st = fetch_libraries json_loads net force
         \<lparr>files = F, files_downloaded = D, libraries = [], all_keywords = [],
          total_keywords = 0\<rparr> names
        in if all_keywords st \<noteq> []
           then Some \<lparr>kir_total_libraries = length (all_keywords st),
                      kir_total_keywords = total_keywords st\<rparr>
           else None)"
    and i: "KEYWORDS_INDEX (snd (fetch_documentation json_loads tokenize net names force c)) =
       (let st = fetch_libraries json_loads net force
         \<lparr>files = F, files_downloaded = D, libraries = [], all_keywords = [],
          total_keywords = 0\<rparr> names
        in if all_keywords st \<noteq> []
           then Some \<lparr>ki_version = RF_VERSION,
                      ki_total_libraries = length (all_keywords st),
                      ki_total_keywords = total_keywords st,
                      ki_libraries = all_keywords st\<rparr>
           else KEYWORDS_INDEX c)"
    using fetch_documentation_loop [of c json_loads tokenize net names force] by blast
  let ?st0 = "\<lparr>files = F, files_downloaded = D, libraries = [], all_keywords = [],
          total_keywords = 0\<rparr>"
  have fa: "file_after net force F n = file_after net force (cache_files c) n" for n
    by (rule file_after_cong) (simp add: F)
  have oc: "library_outcome json_loads net force F n =
            library_outcome json_loads net force (cache_files c) n" for n
    by (rule outcome_cong) (simp add: F)
  have st: "libraries (fetch_libraries json_loads net force ?st0 names) =
           map (\<lambda>n. (n, library_summary (library_outcome json_loads net force (cache_files c) n)))
             (filter (\<lambda>n. file_after net force (cache_files c) n \<noteq> None) names) \<and>
         all_keywords (fetch_libraries json_loads net force ?st0 names) =
           concat (map (\<lambda>n. map (Pair n)
             (parsed_keywords (library_outcome json_loads net force (cache_files c) n))) names) \<and>
         total_keywords (fetch_libraries json_loads net force ?st0 names) =
           sum_list (map (\<lambda>n. lr_total_keywords
             (library_summary (library_outcome json_loads net force (cache_files c) n))) names)"
    using fetch_libraries_state [of names ?st0 json_loads net force] d
    by (simp add: fa oc)
  show "r_libraries (fst (fetch_documentation json_loads tokenize net names force c)) =
       map (\<lambda>n. (n, library_summary (library_outcome json_loads net force (cache_files c) n)))
         (filter (\<lambda>n. file_after net force (cache_files c) n \<noteq> None) names)"
    unfolding l using st by simp
  show "r_keywords_index (fst (fetch_documentation json_loads tokenize net names force c)) =
       (if concat (map (\<lambda>n. map (Pair n)
             (parsed_keywords (library_outcome json_loads net force (cache_files c) n))) names) \<noteq> []
        then Some \<lparr>kir_total_libraries = length (concat (map (\<lambda>n. map (Pair n)
                      (parsed_keywords (library_outcome json_loads net force (cache_files c) n)))
                      names)),
                   kir_total_keywords = sum_list (map (\<lambda>n. lr_total_keywords
                      (library_summary (library_outcome json_loads net force (cache_files c) n)))
                      names)\<rparr>
        else None)"
    unfolding k Let_def using st by (simp only:)
  show "KEYWORDS_INDEX (snd (fetch_documentation json_loads tokenize net names force c)) =
       (if concat (map (\<lambda>n. map (Pair n)
             (parsed_keywords (library_outcome json_loads net force (cache_files c) n))) names) \<noteq> []
        then Some \<lparr>ki_version = RF_VERSION,
                   ki_total_libraries = length (concat (map (\<lambda>n. map (Pair n)
                      (parsed_keywords (library_outcome json_loads net force (cache_files c) n)))
                      names)),
                   ki_total_keywords = sum_list (map (\<lambda>n. lr_total_keywords
                      (library_summary (library_outcome json_loads net force (cache_files c) n)))
                      names),
                   ki_libraries = concat (map (\<lambda>n. map (Pair n)
                      (parsed_keywords (library_outcome json_loads net force (cache_files c) n)))
                      names)\<rparr>
        else KEYWORDS_INDEX c)"
    unfolding i Let_def using st by (simp only:)
qed

lemma file_after_None:
  "file_after net force fs n = None \<longleftrightarrow> fs (Library n) = None \<and> net (Library n) = None"
  by (auto simp: file_after_def split: option.splits)

lemma summary_cases:
  "library_summary (Inl e) = \<lparr>lr_success = False, lr_total_keywords = 0\<rparr> \<and>
   library_summary (Inr keywords) = \<lparr>lr_success = True, lr_total_keywords = length keywords\<rparr> \<and>
   parsed_keywords (Inl e) = [] \<and> parsed_keywords (Inr keywords) = [keywords]"
  by (simp add: library_summary_def parsed_keywords_def)

lemma standard_distinct:
  "fetch_rf_documentation json_loads tokenize net force c =
     fetch_documentation json_loads tokenize net STANDARD_LIBRARIES force c \<and>
   distinct STANDARD_LIBRARIES"
  by (simp add: fetch_rf_documentation_def STANDARD_LIBRARIES_def)


lemma refresh_entries:
  "distinct names \<longrightarrow>
     r_libraries (fst (fetch_documentation json_loads tokenize net names force c)) =
       map (\<lambda>n. (n, library_summary (library_outcome json_loads net force (cache_files c) n)))
         (filter (\<lambda>n. file_after net force (cache_files c) n \<noteq> None) names) \<and>
     (\<forall>n\<in>set names.
        map_of (r_libraries (fst (fetch_documentation json_loads tokenize net names force c))) n =
          (if file_after net force (cache_files c) n = None then None
           else Some (library_summary
                        (library_outcome json_loads net force (cache_files c) n)))) \<and>
     r_keywords_index (fst (fetch_documentation json_loads tokenize net names force c)) =
       (if concat (map (\<lambda>n. map (Pair n)
             (parsed_keywords (library_outcome json_loads net force (cache_files c) n))) names) \<noteq> []
        then Some \<lparr>kir_total_libraries = length (concat (map (\<lambda>n. map (Pair n)
                      (parsed_keywords (library_outcome json_loads net force (cache_files c) n)))
                      names)),
                   kir_total_keywords = sum_list (map (\<lambda>n. lr_total_keywords
                      (library_summary (library_outcome json_loads net force (cache_files c) n)))
                      names)\<rparr>
        else None) \<and>
     KEYWORDS_INDEX (snd (fetch_documentation json_loads tokenize net names force c)) =
       (if concat (map (\<lambda>n. map (Pair n)
             (parsed_keywords (library_outcome json_loads net force (cache_files c) n))) names) \<noteq> []
        then Some \<lparr>ki_version = RF_VERSION,
                   ki_total_libraries = length (concat (map (\<lambda>n. map (Pair n)
                      (parsed_keywords (library_outcome json_loads net force (cache_files c) n)))
                      names)),
                   ki_total_keywords = sum_list (map (\<lambda>n. lr_total_keywords
                      (library_summary (library_outcome json_loads net force (cache_files c) n)))
                      names),
                   ki_libraries = concat (map (\<lambda>n. map (Pair n)
                      (parsed_keywords (library_outcome json_loads net force (cache_files c) n)))
                      names)\<rparr>
        else KEYWORDS_INDEX c)"
proof
  assume d: "distinct names"
  note r = refresh_libraries [OF d, of json_loads tokenize net force c]
  have m: "\<forall>n\<in>set names.
        map_of (r_libraries (fst (fetch_documentation json_loads tokenize net names force c))) n =
          (if file_after net force (cache_files c) n = None then None
           else Some (library_summary
                        (library_outcome json_loads net force (cache_files c) n)))"
    unfolding r(1) map_of_entries by simp
  show "r_libraries (fst (fetch_documentation json_loads tokenize net names force c)) =
       map (\<lambda>n. (n, library_summary (library_outcome json_loads net force (cache_files c) n)))
         (filter (\<lambda>n. file_after net force (cache_files c) n \<noteq> None) names) \<and>
     (\<forall>n\<in>set names.
        map_of (r_libraries (fst (fetch_documentation json_loads tokenize net names force c))) n =
          (if file_after net force (cache_files c) n = None then None
           else Some (library_summary
                        (library_outcome json_loads net force (cache_files c) n)))) \<and>
     r_keywords_index (fst (fetch_documentation json_loads tokenize net names force c)) =
       (if concat (map (\<lambda>n. map (Pair n)
             (parsed_keywords (library_outcome json_loads net force (cache_files c) n))) names) \<noteq> []
        then Some \<lparr>kir_total_libraries = length (concat (map (\<lambda>n. map (Pair n)
                      (parsed_keywords (library_outcome json_loads net force (cache_files c) n)))
                      names)),
                   kir_total_keywords = sum_list (map (\<lambda>n. lr_total_keywords
                      (library_summary (library_outcome json_loads net force (cache_files c) n)))
                      names)\<rparr>
        else None) \<and>
     KEYWORDS_INDEX (snd (fetch_documentation json_loads tokenize net names force c)) =
       (if concat (map (\<lambda>n. map (Pair n)
             (parsed_keywords (library_outcome json_loads net force (cache_files c) n))) names) \<noteq> []
        then Some \<lparr>ki_version = RF_VERSION,
                   ki_total_libraries = length (concat (map (\<lambda>n. map (Pair n)
                      (parsed_keywords (library_outcome json_loads net force (cache_files c) n)))
                      names)),
                   ki_total_keywords = sum_list (map (\<lambda>n. lr_total_keywords
                      (library_summary (library_outcome json_loads net force (cache_files c) n)))
                      names),
                   ki_libraries = concat (map (\<lambda>n. map (Pair n)
                      (parsed_keywords (library_outcome json_loads net force (cache_files c) n)))
                      names)\<rparr>
        else KEYWORDS_INDEX c)"
    by (intro conjI r m)
qed

lemma outcome_unfold:
  "library_outcome json_loads net force fs n =
     parse_library_keywords json_loads n (file_after net force fs n)"
  by (rule library_outcome_def)

text \<open>
  Claim C5, amended. A refresh works through every library of the list, whatever happens
  to the others. The per-library result map has an entry exactly for the libraries whose
  file is present after the download attempt, freshly fetched or cached: \<open>success: True\<close>
  with the keyword count when the file parsed, \<open>success: False\<close> with count 0 when it did
  not. A library whose download failed and that has no cached file has no entry. When at
  least one library parsed, the keywords index is written, and \<open>total_keywords\<close> is the
  sum of the keyword counts of the parsed libraries, a failed library counting 0; when
  none parsed, no index is written and the old one stays. The overall \<open>success\<close> is the
  success of the user guide's download, or \<open>True\<close> for a cached user guide, whatever the
  libraries did.
\<close>

theorem refresh_isolates_library_failures:
  "(distinct names \<longrightarrow>
     r_libraries (fst (fetch_documentation json_loads tokenize net names force c)) =
       map (\<lambda>n. (n, library_summary (library_outcome json_loads net force (cache_files c) n)))
         (filter (\<lambda>n. file_after net force (cache_files c) n \<noteq> None) names) \<and>
     (\<forall>n\<in>set names.
        map_of (r_libraries (fst (fetch_documentation json_loads tokenize net names force c))) n =
          (if file_after net force (cache_files c) n = None then None
           else Some (library_summary
                        (library_outcome json_loads net force (cache_files c) n)))) \<and>
     r_keywords_index (fst (fetch_documentation json_loads tokenize net names force c)) =
       (if concat (map (\<lambda>n. map (Pair n)
             (parsed_keywords (library_outcome json_loads net force (cache_files c) n))) names) \<noteq> []
        then Some \<lparr>kir_total_libraries = length (concat (map (\<lambda>n. map (Pair n)
                      (parsed_keywords (library_outcome json_loads net force (cache_files c) n)))
                      names)),
                   kir_total_keywords = sum_list (map (\<lambda>n. lr_total_keywords
                      (library_summary (library_outcome json_loads net force (cache_files c) n)))
                      names)\<rparr>
        else None) \<and>
     KEYWORDS_INDEX (snd (fetch_documentation json_loads tokenize net names force c)) =
       (if concat (map (\<lambda>n. map (Pair n)
             (parsed_keywords (library_outcome json_loads net force (cache_files c) n))) names) \<noteq> []
        then Some \<lparr>ki_version = RF_VERSION,
                   ki_total_libraries = length (concat (map (\<lambda>n. map (Pair n)
                      (parsed_keywords (library_outcome json_loads net force (cache_files c) n)))
                      names)),
                   ki_total_keywords = sum_list (map (\<lambda>n. lr_total_keywords
                      (library_summary (library_outcome json_loads net force (cache_files c) n)))
                      names),
                   ki_libraries = concat (map (\<lambda>n. map (Pair n)
                      (parsed_keywords (library_outcome json_loads net force (cache_files c) n)))
                      names)\<rparr>
        else KEYWORDS_INDEX c)) \<and>
   (r_success (fst (fetch_documentation json_loads tokenize net names force c)) =
      ug_success (r_user_guide (fst (fetch_documentation json_loads tokenize net names force c))) \<and>
    r_success (fst (fetch_documentation json_loads tokenize net names force c)) =
      (if force \<or> cache_files c UserGuide = None then net UserGuide \<noteq> None else True)) \<and>
   (file_after net force fs n = None \<longleftrightarrow> fs (Library n) = None \<and> net (Library n) = None) \<and>
   library_outcome json_loads net force fs n =
     parse_library_keywords json_loads n (file_after net force fs n) \<and>
   (library_summary (Inl e) = \<lparr>lr_success = False, lr_total_keywords = 0\<rparr> \<and>
    library_summary (Inr keywords) = \<lparr>lr_success = True, lr_total_keywords = length keywords\<rparr> \<and>
    parsed_keywords (Inl e) = [] \<and> parsed_keywords (Inr keywords) = [keywords]) \<and>
   (fetch_rf_documentation json_loads tokenize net force c =
      fetch_documentation json_loads tokenize net STANDARD_LIBRARIES force c \<and>
    distinct STANDARD_LIBRARIES)"
  by (intro conjI refresh_entries fetch_success [THEN conjunct1] fetch_success [THEN conjunct2]
      file_after_None outcome_unfold summary_cases [THEN conjunct1]
      summary_cases [THEN conjunct2, THEN conjunct1]
      summary_cases [THEN conjunct2, THEN conjunct2, THEN conjunct1]
      summary_cases [THEN conjunct2, THEN conjunct2, THEN conjunct2]
      standard_distinct [THEN conjunct1] standard_distinct [THEN conjunct2])


lemma sample_outcomes:
  "library_outcome sample_loads sample_net False (cache_files empty_cache) ''BuiltIn'' =
     Inr [(''Log'', \<lparr>kw_name = ''Log'', kw_id = ''Log'', kw_args = [], kw_doc = [],
                     kw_library = ''BuiltIn'', kw_source = JStr [], kw_lineno = JStr []\<rparr>)] \<and>
   library_outcome sample_loads sample_net False (cache_files empty_cache) ''Collections'' = Inr [] \<and>
   library_outcome sample_loads sample_net False (cache_files empty_cache) ''DateTime'' = Inr [] \<and>
   library_outcome sample_loads sample_net False (cache_files empty_cache) ''OperatingSystem'' =
     Inr [] \<and>
   library_outcome sample_loads sample_net False (cache_files empty_cache) ''Process'' = Inr [] \<and>
   library_outcome sample_loads sample_net False (cache_files empty_cache) ''Screenshot'' = Inr [] \<and>
   library_outcome sample_loads sample_net False (cache_files empty_cache) ''String'' = Inr [] \<and>
   library_outcome sample_loads sample_net False (cache_files empty_cache) ''Telnet'' =
     Inl NotDownloaded \<and>
   library_outcome sample_loads sample_net False (cache_files empty_cache) ''XML'' = Inl Unbalanced"
  by code_simp

lemma sample_files:
  "file_after sample_net False (cache_files empty_cache) ''BuiltIn'' \<noteq> None \<and>
   file_after sample_net False (cache_files empty_cache) ''Collections'' \<noteq> None \<and>
   file_after sample_net False (cache_files empty_cache) ''DateTime'' \<noteq> None \<and>
   file_after sample_net False (cache_files empty_cache) ''OperatingSystem'' \<noteq> None \<and>
   file_after sample_net False (cache_files empty_cache) ''Process'' \<noteq> None \<and>
   file_after sample_net False (cache_files empty_cache) ''Screenshot'' \<noteq> None \<and>
   file_after sample_net False (cache_files empty_cache) ''String'' \<noteq> None \<and>
   file_after sample_net False (cache_files empty_cache) ''Telnet'' = None \<and>
   file_after sample_net False (cache_files empty_cache) ''XML'' \<noteq> None"
  by code_simp

lemma sample_refresh_entries:
  "map (\<lambda>n. (n, library_summary
          (library_outcome sample_loads sample_net False (cache_files empty_cache) n)))
     (filter (\<lambda>n. file_after sample_net False (cache_files empty_cache) n \<noteq> None)
        STANDARD_LIBRARIES) =
   [(''BuiltIn'', \<lparr>lr_success = True, lr_total_keywords = 1\<rparr>),
    (''Collections'', \<lparr>lr_success = True, lr_total_keywords = 0\<rparr>),
    (''DateTime'', \<lparr>lr_success = True, lr_total_keywords = 0\<rparr>),
    (''OperatingSystem'', \<lparr>lr_success = True, lr_total_keywords = 0\<rparr>),
    (''Process'', \<lparr>lr_success = True, lr_total_keywords = 0\<rparr>),
    (''Screenshot'', \<lparr>lr_success = True, lr_total_keywords = 0\<rparr>),
    (''String'', \<lparr>lr_success = True, lr_total_keywords = 0\<rparr>),
    (''XML'', \<lparr>lr_success = False, lr_total_keywords = 0\<rparr>)]"
  using sample_outcomes sample_files
  by (simp add: STANDARD_LIBRARIES_def library_summary_def)

lemma sample_refresh_totals:
  "concat (map (\<lambda>n. map (Pair n) (parsed_keywords
      (library_outcome sample_loads sample_net False (cache_files empty_cache) n)))
      STANDARD_LIBRARIES) \<noteq> [] \<and>
   length (concat (map (\<lambda>n. map (Pair n) (parsed_keywords
      (library_outcome sample_loads sample_net False (cache_files empty_cache) n)))
      STANDARD_LIBRARIES)) = 7 \<and>
   sum_list (map (\<lambda>n. lr_total_keywords (library_summary
      (library_outcome sample_loads sample_net False (cache_files empty_cache) n)))
      STANDARD_LIBRARIES) = 1"
  using sample_outcomes
  by (simp add: STANDARD_LIBRARIES_def library_summary_def parsed_keywords_def)

lemma sample_user_guide:
  "cache_files empty_cache UserGuide = None \<and> sample_net UserGuide \<noteq> None"
  by (simp add: empty_cache_def sample_net_def)

theorem refresh_isolates_library_failures_witness:
  "distinct STANDARD_LIBRARIES \<and>
   r_libraries (fst (fetch_rf_documentation sample_loads (\<lambda>s. []) sample_net False empty_cache)) =
     [(''BuiltIn'', \<lparr>lr_success = True, lr_total_keywords = 1\<rparr>),
      (''Collections'', \<lparr>lr_success = True, lr_total_keywords = 0\<rparr>),
      (''DateTime'', \<lparr>lr_success = True, lr_total_keywords = 0\<rparr>),
      (''OperatingSystem'', \<lparr>lr_success = True, lr_total_keywords = 0\<rparr>),
      (''Process'', \<lparr>lr_success = True, lr_total_keywords = 0\<rparr>),
      (''Screenshot'', \<lparr>lr_success = True, lr_total_keywords = 0\<rparr>),
      (''String'', \<lparr>lr_success = True, lr_total_keywords = 0\<rparr>),
      (''XML'', \<lparr>lr_success = False, lr_total_keywords = 0\<rparr>)] \<and>
   r_keywords_index
       (fst (fetch_rf_documentation sample_loads (\<lambda>s. []) sample_net False empty_cache)) =
     Some \<lparr>kir_total_libraries = 7, kir_total_keywords = 1\<rparr> \<and>
   r_success (fst (fetch_rf_documentation sample_loads (\<lambda>s. []) sample_net False empty_cache))"
proof -
  note t = refresh_isolates_library_failures
    [of STANDARD_LIBRARIES sample_loads "\<lambda>s. []" sample_net False empty_cache]
  have std: "fetch_rf_documentation sample_loads (\<lambda>s. []) sample_net False empty_cache =
      fetch_documentation sample_loads (\<lambda>s. []) sample_net STANDARD_LIBRARIES False empty_cache"
    and d: "distinct STANDARD_LIBRARIES"
    using t [THEN conjunct2, THEN conjunct2, THEN conjunct2, THEN conjunct2, THEN conjunct2]
    by blast+
  note e = t [THEN conjunct1, THEN mp, OF d]
  have 1: "r_libraries
      (fst (fetch_documentation sample_loads (\<lambda>s. []) sample_net STANDARD_LIBRARIES False
              empty_cache)) =
     [(''BuiltIn'', \<lparr>lr_success = True, lr_total_keywords = 1\<rparr>),
      (''Collections'', \<lparr>lr_success = True, lr_total_keywords = 0\<rparr>),
      (''DateTime'', \<lparr>lr_success = True, lr_total_keywords = 0\<rparr>),
      (''OperatingSystem'', \<lparr>lr_success = True, lr_total_keywords = 0\<rparr>),
      (''Process'', \<lparr>lr_success = True, lr_total_keywords = 0\<rparr>),
      (''Screenshot'', \<lparr>lr_success = True, lr_total_keywords = 0\<rparr>),
      (''String'', \<lparr>lr_success = True, lr_total_keywords = 0\<rparr>),
      (''XML'', \<lparr>lr_success = False, lr_total_keywords = 0\<rparr>)]"
    using e [THEN conjunct1] unfolding sample_refresh_entries .
  have 2: "r_keywords_index
      (fst (fetch_documentation sample_loads (\<lambda>s. []) sample_net STANDARD_LIBRARIES False
              empty_cache)) =
     Some \<lparr>kir_total_libraries = 7, kir_total_keywords = 1\<rparr>"
    using e [THEN conjunct2, THEN conjunct2, THEN conjunct1] sample_refresh_totals
    by simp
  have 3: "r_success
      (fst (fetch_documentation sample_loads (\<lambda>s. []) sample_net STANDARD_LIBRARIES False
              empty_cache))"
    using t [THEN conjunct2, THEN conjunct1, THEN conjunct2] sample_user_guide by simp
  show ?thesis unfolding std by (intro conjI d 1 2 3)
qed

text \<open>
  Claim C5, as stated, fails: when the page of \<open>Telnet\<close> cannot be fetched and no copy
  is cached, the per-library result map has no entry for \<open>Telnet\<close>, so the failed
  library is not marked \<open>success: False\<close>.
\<close>

theorem failed_fetch_has_no_entry_counterexample:
  "''Telnet'' \<in> set STANDARD_LIBRARIES \<and>
   sample_net (Library ''Telnet'') = None \<and>
   map_of (r_libraries
     (fst (fetch_rf_documentation sample_loads (\<lambda>s. []) sample_net False empty_cache)))
     ''Telnet'' = None \<and>
   map_of (r_libraries
     (fst (fetch_rf_documentation sample_loads (\<lambda>s. []) sample_net False empty_cache)))
     ''Telnet'' \<noteq> Some \<lparr>lr_success = False, lr_total_keywords = 0\<rparr>"
proof -
  have std: "fetch_rf_documentation sample_loads (\<lambda>s. []) sample_net False empty_cache =
      fetch_documentation sample_loads (\<lambda>s. []) sample_net STANDARD_LIBRARIES False empty_cache"
    and d: "distinct STANDARD_LIBRARIES"
    using standard_distinct by blast+
  have t: "''Telnet'' \<in> set STANDARD_LIBRARIES" by (simp add: STANDARD_LIBRARIES_def)
  have n: "sample_net (Library ''Telnet'') = None" by (simp add: sample_net_def)
  have f: "file_after sample_net False (cache_files empty_cache) ''Telnet'' = None"
    using sample_files by blast
  have m: "map_of (r_libraries
     (fst (fetch_documentation sample_loads (\<lambda>s. []) sample_net STANDARD_LIBRARIES False
             empty_cache))) ''Telnet'' = None"
    using refresh_entries [of STANDARD_LIBRARIES sample_loads "\<lambda>s. []" sample_net False empty_cache,
        THEN mp, OF d, THEN conjunct2, THEN conjunct1, rule_format, OF t]
    unfolding f by simp
  show ?thesis unfolding std using t n m by simp
qed

end
